theory Spec2Isabelle
  imports Main
begin

section \<open>JavaScript strings\<close>

text \<open>
  A JavaScript string is a sequence of UTF-16 code units; \<open>length\<close>, \<open>charAt\<close>,
  \<open>substring\<close> and regular expressions without the \<open>u\<close> flag all count and compare code
  units. A string is modelled as the list of its code units (as integers), and
  \<open>js\<close> turns an ASCII literal of the source into that list.
\<close>

type_synonym jstring = "int list"

definition js :: "string \<Rightarrow> jstring" where
  "js s = map of_char s"

text \<open>Decimal rendering of a number inside a template literal.\<close>

fun dec :: "nat \<Rightarrow> jstring" where
  "dec n = (if n < 10 then [48 + int n] else dec (n div 10) @ [48 + int (n mod 10)])"

declare dec.simps [simp del]

text \<open>\<open>String.prototype.startsWith\<close>, \<open>includes\<close>, \<open>indexOf\<close>, \<open>substring\<close>, \<open>split\<close>.\<close>

fun startsWith :: "jstring \<Rightarrow> jstring \<Rightarrow> bool" where
  "startsWith s [] = True"
| "startsWith [] (n # ns) = False"
| "startsWith (c # cs) (n # ns) = (c = n \<and> startsWith cs ns)"

fun str_includes :: "jstring \<Rightarrow> jstring \<Rightarrow> bool" where
  "str_includes [] n = (n = [])"
| "str_includes (c # cs) n = (startsWith (c # cs) n \<or> str_includes cs n)"

fun indexOf :: "jstring \<Rightarrow> jstring \<Rightarrow> nat option" where
  "indexOf [] n = (if n = [] then Some 0 else None)"
| "indexOf (c # cs) n =
     (if startsWith (c # cs) n then Some 0 else map_option Suc (indexOf cs n))"

definition substring :: "jstring \<Rightarrow> nat \<Rightarrow> nat \<Rightarrow> jstring" where
  "substring s a b = take (max a b - min a b) (drop (min a b) s)"

fun split_on :: "int \<Rightarrow> jstring \<Rightarrow> jstring list" where
  "split_on d [] = [[]]"
| "split_on d (c # cs) =
     (if c = d then [] # split_on d cs
      else case split_on d cs of [] \<Rightarrow> [[c]] | p # ps \<Rightarrow> (c # p) # ps)"

text \<open>
  \<open>toLowerCase\<close> follows the Unicode tables. The model lowers \<open>A\<close>..\<open>Z\<close> and the two code
  points outside ASCII whose lower case holds an ASCII letter (U+0130 and the Kelvin sign
  U+212A), and leaves every other code unit as it is; the tables send those to code units
  outside ASCII. A search of the lowered text for a string is therefore the program's
  whenever one of the two strings is ASCII, as every fixed keyword of the program is.
\<close>

definition lower_unit :: "int \<Rightarrow> jstring" where
  "lower_unit c =
     (if 65 \<le> c \<and> c \<le> 90 then [c + 32]
      else if c = 304 then [105, 775]
      else if c = 8490 then [107]
      else [c])"

definition toLowerCase :: "jstring \<Rightarrow> jstring" where
  "toLowerCase s = concat (map lower_unit s)"

section \<open>Data model\<close>

text \<open>
  A finding is a plain object. The Detector writes \<open>type\<close>, \<open>offsetStart\<close>, \<open>offsetEnd\<close>
  and, depending on the scanner, \<open>value\<close> or \<open>details.rowCount\<close>; it never writes
  \<open>category\<close>, which the Entity Mapper reads. A field that is absent (\<open>undefined\<close>) is
  \<open>None\<close>. Both offsets are present in every finding the Detector emits, and are numbers.
\<close>

record finding =
  ftype :: jstring
  offsetStart :: nat
  offsetEnd :: nat
  fvalue :: "jstring option"
  details :: "nat option"
  category :: "jstring option"

datatype riskLevel = LOW | MEDIUM | HIGH

record analysis =
  riskLevel :: riskLevel
  findings :: "finding list"
  anomalyScore :: nat

section \<open>Policy Engine (src/modules/policyEngine.js)\<close>

datatype decision = ALLOW | WARN_AND_ALLOW | WARN_AND_SANITIZE | BLOCK

record policyContext =
  userRole :: "jstring option"

record policyDecision =
  decision :: decision
  reasonCodes :: "jstring list"
  sanitizedText :: "jstring option"
  userMessage :: jstring

definition engine_pii_types :: "jstring list" where
  "engine_pii_types =
     [js ''EMAIL'', js ''PHONE'', js ''SSN'', js ''ID_NUMBER'', js ''CREDIT_CARD'',
      js ''IBAN'', js ''ADDRESS'']"

definition makeDecision :: "analysis \<Rightarrow> policyContext \<Rightarrow> policyDecision" where
  "makeDecision a context =
    (let role = (case userRole context of None \<Rightarrow> js ''employee'' | Some r \<Rightarrow> r);
         findingTypes = map ftype (findings a);
         hasPII = list_ex (\<lambda>t. t \<in> set engine_pii_types) findingTypes;
         hasBulkData = (js ''BULK_DATA'' \<in> set findingTypes);
         hasExfilAttempt = (js ''EXFIL_ATTEMPT'' \<in> set findingTypes);
         hasJailbreakPattern = (js ''JAILBREAK_PATTERN'' \<in> set findingTypes);
         pii = \<lparr> decision = (if role = js ''employee'' then WARN_AND_SANITIZE else WARN_AND_ALLOW),
                 reasonCodes = [js ''PII_DETECTED''],
                 sanitizedText = None,
                 userMessage =
                   js ''Sensitive information detected. Content will be sanitized before sending.'' \<rparr>
     in
     if riskLevel a = HIGH \<or> hasExfilAttempt \<or> hasJailbreakPattern then
       \<lparr> decision = BLOCK,
         reasonCodes = [if hasExfilAttempt then js ''EXFIL_ATTEMPT''
                        else if hasJailbreakPattern then js ''JAILBREAK_PATTERN''
                        else js ''HIGH_RISK''],
         sanitizedText = None,
         userMessage =
           (if hasExfilAttempt then
              js ''This prompt appears to be attempting data extraction and has been blocked.''
            else if hasJailbreakPattern then
              js ''This prompt contains instructions that attempt to bypass safety measures and has been blocked.''
            else js ''This content has been blocked due to high security risk.'') \<rparr>
     else if hasBulkData then
       (case find (\<lambda>f. ftype f = js ''BULK_DATA'') (findings a) of
          Some bulkFinding \<Rightarrow>
            (case details bulkFinding of
               Some rows \<Rightarrow>
                 if rows > 10 then
                   \<lparr> decision = BLOCK, reasonCodes = [js ''BULK_DATA''], sanitizedText = None,
                     userMessage =
                       js ''Large data sets have been blocked for security. Please use the Document Wizard for safe processing.'' \<rparr>
                 else if hasPII then pii
                 else \<lparr> decision = ALLOW, reasonCodes = [], sanitizedText = None, userMessage = [] \<rparr>
             | None \<Rightarrow>
                 if hasPII then pii
                 else \<lparr> decision = ALLOW, reasonCodes = [], sanitizedText = None, userMessage = [] \<rparr>)
        | None \<Rightarrow>
            if hasPII then pii
            else \<lparr> decision = ALLOW, reasonCodes = [], sanitizedText = None, userMessage = [] \<rparr>)
     else if hasPII then pii
     else if riskLevel a = LOW then
       \<lparr> decision = ALLOW, reasonCodes = [], sanitizedText = None,
         userMessage = js ''Content approved for sending.'' \<rparr>
     else
       \<lparr> decision = WARN_AND_ALLOW, reasonCodes = [js ''MEDIUM_RISK''], sanitizedText = None,
         userMessage = js ''Content has medium risk factors. Please review before sending.'' \<rparr>)"

section \<open>Entity Mapper (src/services/TelemetryService.js)\<close>

text \<open>
  Both \<open>entityMap\<close> and \<open>counters\<close> start as \<open>{}\<close>, an object whose prototype is
  \<open>Object.prototype\<close>: a read \<open>obj[key]\<close> of a key the object does not own falls through to
  the members inherited from there, all of which are functions or objects, hence truthy.
  An object is modelled as the association list of its own properties in insertion order.
\<close>

definition object_prototype_keys :: "jstring list" where
  "object_prototype_keys =
     [js ''constructor'', js ''__defineGetter__'', js ''__defineSetter__'', js ''hasOwnProperty'',
      js ''__lookupGetter__'', js ''__lookupSetter__'', js ''isPrototypeOf'',
      js ''propertyIsEnumerable'', js ''toString'', js ''valueOf'', js ''__proto__'',
      js ''toLocaleString'']"

text \<open>The string a template literal or a property key makes of an inherited member.\<close>

definition inherited_to_string :: "jstring \<Rightarrow> jstring" where
  "inherited_to_string k =
     (if k = js ''__proto__'' then js ''[object Object]''
      else js ''function '' @ (if k = js ''constructor'' then js ''Object'' else k)
           @ js ''() { [native code] }'')"

record entity =
  originalValue :: "jstring option"
  ecategory :: jstring

type_synonym entityMap = "(jstring \<times> entity) list"

definition assign :: "('k \<times> 'v) list \<Rightarrow> 'k \<Rightarrow> 'v \<Rightarrow> ('k \<times> 'v) list" where
  "assign obj k v =
     (if k \<in> fst ` set obj then map (\<lambda>(k', v'). if k' = k then (k', v) else (k', v')) obj
      else obj @ [(k, v)])"

definition getCategoryPrefix :: "jstring \<Rightarrow> jstring" where
  "getCategoryPrefix c =
     (case map_of
        [(js ''EMAIL'', js ''EMAIL''), (js ''PHONE'', js ''PHONE''), (js ''SSN'', js ''ID''),
         (js ''CREDIT_CARD'', js ''CC''), (js ''PASSPORT'', js ''PASSPORT''),
         (js ''PII_PERSON'', js ''CLIENT''), (js ''PII_ORG'', js ''COMPANY''),
         (js ''FINANCIAL'', js ''ACCOUNT''), (js ''ADDRESS'', js ''ADDRESS'')] c of
        Some p \<Rightarrow> p
      | None \<Rightarrow> if c \<in> set object_prototype_keys then inherited_to_string c else js ''DATA'')"

text \<open>\<open>obj[key]\<close> is truthy: an own property (always an object here) or an inherited member.\<close>

definition truthy_at :: "(jstring \<times> 'v) list \<Rightarrow> jstring \<Rightarrow> bool" where
  "truthy_at obj k = (k \<in> fst ` set obj \<or> k \<in> set object_prototype_keys)"

definition property_key :: "jstring option \<Rightarrow> jstring" where
  "property_key v = (case v of None \<Rightarrow> js ''undefined'' | Some s \<Rightarrow> s)"

definition entity_step :: "entityMap \<times> (jstring \<times> nat) list \<Rightarrow> finding \<Rightarrow> entityMap \<times> (jstring \<times> nat) list" where
  "entity_step st f =
     (let entityMap = fst st; counters = snd st;
          cat = (case category f of None \<Rightarrow> js ''PII'' | Some c \<Rightarrow> if c = [] then js ''PII'' else c);
          val = fvalue f
      in if \<not> truthy_at entityMap (property_key val) then
           (let prefix = getCategoryPrefix cat;
                n = (case map_of counters prefix of None \<Rightarrow> 0 | Some c \<Rightarrow> c) + 1;
                counters' = assign counters prefix n;
                placeholder = prefix @ js ''_'' @ dec n
            in (assign entityMap placeholder \<lparr> originalValue = val, ecategory = cat \<rparr>, counters'))
         else st)"

definition buildEntityMap :: "finding list \<Rightarrow> entityMap" where
  "buildEntityMap fs = fst (foldl entity_step ([], []) fs)"

section \<open>Regular expressions\<close>

text \<open>
  The patterns of the Detector use literals, character classes, \<open>.\<close>, \<open>\b\<close>, sequence,
  alternation and greedy or lazy quantifiers; capture groups are never referenced, so a
  group is its body. None carries the \<open>u\<close> flag: matching is by code unit.
\<close>

datatype cset = CRange int int | CDigit | CWord | CSpace | CNotSpace

datatype regex =
    Eps
  | Chr int
  | Cls bool "cset list"
  | Dot
  | WordB
  | Cat regex regex
  | Or regex regex
  | Rep regex nat "nat option" bool

definition is_digit :: "int \<Rightarrow> bool" where
  "is_digit c = (48 \<le> c \<and> c \<le> 57)"

definition is_word_char :: "int \<Rightarrow> bool" where
  "is_word_char c = ((97 \<le> c \<and> c \<le> 122) \<or> (65 \<le> c \<and> c \<le> 90) \<or> is_digit c \<or> c = 95)"

text \<open>\<open>\s\<close>: the WhiteSpace and LineTerminator code points of ECMAScript.\<close>

definition is_space :: "int \<Rightarrow> bool" where
  "is_space c = (c = 32 \<or> (9 \<le> c \<and> c \<le> 13) \<or> c = 160 \<or> c = 5760 \<or> (8192 \<le> c \<and> c \<le> 8202)
                 \<or> c = 8232 \<or> c = 8233 \<or> c = 8239 \<or> c = 8287 \<or> c = 12288 \<or> c = 65279)"

definition is_line_terminator :: "int \<Rightarrow> bool" where
  "is_line_terminator c = (c = 10 \<or> c = 13 \<or> c = 8232 \<or> c = 8233)"

text \<open>
  Canonicalize of the \<open>i\<close> flag maps a code unit to its upper case, and never maps a code
  unit from 128 on to one below 128. The patterns of this program hold ASCII characters
  and Hebrew letters (which have no case) only, so on every comparison they make it agrees
  with the upper-casing of \<open>a\<close>..\<open>z\<close> alone.
\<close>

definition canonicalize :: "bool \<Rightarrow> int \<Rightarrow> int" where
  "canonicalize ic c = (if ic \<and> 97 \<le> c \<and> c \<le> 122 then c - 32 else c)"

text \<open>
  A class atom matches \<open>c\<close> when it has a member \<open>a\<close> with
  \<open>canonicalize a = canonicalize c\<close>. For a range that is: \<open>c\<close> or its canonical form lies in
  the range, or the canonical form is an upper-case letter whose lower case does.
\<close>

fun in_cset :: "bool \<Rightarrow> int \<Rightarrow> cset \<Rightarrow> bool" where
  "in_cset ic c (CRange lo hi) =
     (let u = canonicalize ic c
      in (lo \<le> c \<and> c \<le> hi) \<or> (ic \<and> ((lo \<le> u \<and> u \<le> hi) \<or> (65 \<le> u \<and> u \<le> 90 \<and> lo \<le> u + 32 \<and> u + 32 \<le> hi))))"
| "in_cset ic c CDigit = is_digit c"
| "in_cset ic c CWord = is_word_char c"
| "in_cset ic c CSpace = is_space c"
| "in_cset ic c CNotSpace = (\<not> is_space c)"

text \<open>
  A position of the matcher in the input: the index, whether the code unit before it is a
  word character (what \<open>\b\<close> looks at), and the code units from the index on.
\<close>

type_synonym pos = "nat \<times> bool \<times> jstring"

definition pos_at :: "jstring \<Rightarrow> nat \<Rightarrow> pos" where
  "pos_at s i =
     (i, (case i of 0 \<Rightarrow> False | Suc j \<Rightarrow> j < length s \<and> is_word_char (s ! j)), drop i s)"

text \<open>
  RepeatMatcher of the language definition: \<open>m\<close> matches the quantified atom, \<open>mn\<close> is the
  minimum still owed, the third argument the maximum still allowed, and an iteration that
  is not owed and consumes nothing is rejected. The result lists the positions where the
  match can end, in the order backtracking tries them.
\<close>

fun rrep :: "(pos \<Rightarrow> pos list) \<Rightarrow> nat \<Rightarrow> nat \<Rightarrow> bool \<Rightarrow> pos \<Rightarrow> pos list" where
  "rrep m mn 0 g p = [p]"
| "rrep m mn (Suc mx) g p =
     (let inner = concat (map (\<lambda>q. if mn = 0 \<and> fst q = fst p then [] else rrep m (mn - 1) mx g q) (m p))
      in if mn \<noteq> 0 then inner else if g then inner @ [p] else p # inner)"

text \<open>
  \<open>rmatch r ic p\<close>: the end positions of the matches of \<open>r\<close> that start at \<open>p\<close>, in
  backtracking order (the head is the match the engine reports); \<open>ic\<close> is the \<open>i\<close> flag.
  An unbounded quantifier is run with the bound \<open>mn\<close> plus the number of code units left:
  past the owed iterations every iteration consumes a code unit, so no more can succeed
  (lemma \<open>unbounded_quantifier\<close>).
\<close>

fun rmatch :: "regex \<Rightarrow> bool \<Rightarrow> pos \<Rightarrow> pos list" where
  "rmatch Eps ic p = [p]"
| "rmatch (Chr c) ic (i, w, rest) =
     (case rest of
        [] \<Rightarrow> []
      | x # xs \<Rightarrow> if canonicalize ic x = canonicalize ic c then [(Suc i, is_word_char x, xs)] else [])"
| "rmatch (Cls neg items) ic (i, w, rest) =
     (case rest of
        [] \<Rightarrow> []
      | x # xs \<Rightarrow> if list_ex (in_cset ic x) items \<noteq> neg then [(Suc i, is_word_char x, xs)] else [])"
| "rmatch Dot ic (i, w, rest) =
     (case rest of
        [] \<Rightarrow> []
      | x # xs \<Rightarrow> if \<not> is_line_terminator x then [(Suc i, is_word_char x, xs)] else [])"
| "rmatch WordB ic (i, w, rest) =
     (if w \<noteq> (case rest of [] \<Rightarrow> False | x # xs \<Rightarrow> is_word_char x) then [(i, w, rest)] else [])"
| "rmatch (Cat a b) ic p = concat (map (\<lambda>q. rmatch b ic q) (rmatch a ic p))"
| "rmatch (Or a b) ic p = rmatch a ic p @ rmatch b ic p"
| "rmatch (Rep r mn mx g) ic p =
     rrep (\<lambda>q. rmatch r ic q) mn (case mx of Some n \<Rightarrow> n | None \<Rightarrow> mn + length (snd (snd p))) g p"

text \<open>The leftmost start position, from a position on, at which the matcher succeeds, and its end.\<close>

fun search :: "(pos \<Rightarrow> pos list) \<Rightarrow> nat \<Rightarrow> bool \<Rightarrow> jstring \<Rightarrow> (nat \<times> nat) option" where
  "search m i w rest =
     (case m (i, w, rest) of
        q # qs \<Rightarrow> Some (i, fst q)
      | [] \<Rightarrow> (case rest of [] \<Rightarrow> None | x # xs \<Rightarrow> search m (Suc i) (is_word_char x) xs))"

declare search.simps [simp del]

record regexp =
  source :: regex
  ignoreCase :: bool

text \<open>
  \<open>RegExp.prototype.exec\<close> of a regular expression with the \<open>g\<close> flag: it reads
  \<open>lastIndex\<close>, and returns the match (start, end) with the new \<open>lastIndex\<close>: the end of
  the match, or 0 when there is none.
\<close>

definition regexp_exec :: "regexp \<Rightarrow> jstring \<Rightarrow> nat \<Rightarrow> (nat \<times> nat) option \<times> nat" where
  "regexp_exec re s lastIndex =
     (if lastIndex > length s then (None, 0)
      else case pos_at s lastIndex of
             (i, w, rest) \<Rightarrow>
               (case search (\<lambda>q. rmatch (source re) (ignoreCase re) q) i w rest of
                  None \<Rightarrow> (None, 0)
                | Some m \<Rightarrow> (Some m, snd m)))"

subsection \<open>Writing patterns\<close>

definition str :: "string \<Rightarrow> regex" where
  "str cs = foldr (\<lambda>c r. Cat (Chr (of_char c)) r) cs Eps"

definition units :: "int list \<Rightarrow> regex" where
  "units cs = foldr (\<lambda>c r. Cat (Chr c) r) cs Eps"

definition seq :: "regex list \<Rightarrow> regex" where
  "seq rs = foldr Cat rs Eps"

fun alt :: "regex list \<Rightarrow> regex" where
  "alt [] = Eps"
| "alt [r] = r"
| "alt (r # rs) = Or r (alt rs)"

definition opt :: "regex \<Rightarrow> regex" where "opt r = Rep r 0 (Some 1) True"
definition star :: "regex \<Rightarrow> regex" where "star r = Rep r 0 None True"
definition star_lazy :: "regex \<Rightarrow> regex" where "star_lazy r = Rep r 0 None False"
definition many1 :: "regex \<Rightarrow> regex" where "many1 r = Rep r 1 None True"
definition between :: "regex \<Rightarrow> nat \<Rightarrow> nat \<Rightarrow> regex" where "between r m n = Rep r m (Some n) True"
definition exactly :: "regex \<Rightarrow> nat \<Rightarrow> regex" where "exactly r n = Rep r n (Some n) True"
definition at_least :: "regex \<Rightarrow> nat \<Rightarrow> regex" where "at_least r m = Rep r m None True"

definition rng :: "char \<Rightarrow> char \<Rightarrow> cset" where "rng a b = CRange (of_char a) (of_char b)"
definition chars :: "string \<Rightarrow> cset list" where "chars cs = map (\<lambda>c. CRange (of_char c) (of_char c)) cs"
definition upper :: cset where "upper = rng CHR ''A'' CHR ''Z''"
definition lower :: cset where "lower = rng CHR ''a'' CHR ''z''"
definition num :: cset where "num = rng CHR ''0'' CHR ''9''"
definition quotes :: "cset list" where "quotes = [CRange 39 39, CRange 34 34]"
definition cls :: "cset list \<Rightarrow> regex" where "cls items = Cls False items"
definition ncls :: "cset list \<Rightarrow> regex" where "ncls items = Cls True items"
definition digit :: regex where "digit = Cls False [CDigit]"
definition wordc :: regex where "wordc = Cls False [CWord]"
definition space :: regex where "space = Cls False [CSpace]"
definition lit :: "char \<Rightarrow> regex" where "lit c = Chr (of_char c)"
definition words :: "string list \<Rightarrow> regex" where "words ws = alt (map str ws)"

section \<open>Detector (analyzer module)\<close>

subsection \<open>The pattern tables\<close>

definition rx :: "regex list \<Rightarrow> regexp" where
  "rx rs = \<lparr> source = seq rs, ignoreCase = False \<rparr>"

definition rxi :: "regex list \<Rightarrow> regexp" where
  "rxi rs = \<lparr> source = seq rs, ignoreCase = True \<rparr>"

definition PII_PATTERNS :: "(jstring \<times> regexp) list" where
  "PII_PATTERNS =
    [(js ''EMAIL'',
        rx [WordB, many1 (cls ([upper, lower, num] @ chars ''._%+-'')), lit CHR ''@'',
            many1 (cls ([upper, lower, num] @ chars ''.-'')), lit CHR ''.'',
            at_least (cls [upper, lower]) 2, WordB]),
     (js ''PHONE'',
        rx [WordB,
            opt (seq [opt (lit CHR ''+''), between digit 1 3, opt (cls (chars ''-.'' @ [CSpace]))]),
            opt (lit CHR ''(''), exactly digit 3, opt (lit CHR '')''),
            opt (cls (chars ''-.'' @ [CSpace])), exactly digit 3,
            opt (cls (chars ''-.'' @ [CSpace])), exactly digit 4, WordB]),
     (js ''SSN'',
        rx [WordB, exactly digit 3, opt (lit CHR ''-''), exactly digit 2, opt (lit CHR ''-''),
            exactly digit 4, WordB]),
     (js ''CREDIT_CARD'',
        rx [Or (seq [WordB, exactly (seq [exactly digit 4, opt (cls (chars ''-'' @ [CSpace]))]) 3,
                     exactly digit 4, WordB])
               (seq [WordB, exactly digit 16, WordB])]),
     (js ''ID_NUMBER'', rx [WordB, exactly digit 9, WordB]),
     (js ''IBAN'',
        rx [WordB, exactly (cls [upper]) 2, exactly digit 2, exactly (cls [upper, num]) 4,
            exactly digit 7, between (opt (cls [upper, num])) 0 16, WordB]),
     (js ''ADDRESS'',
        rxi [WordB, many1 digit, many1 space, many1 (cls [upper, lower]), many1 space,
             words [''Street'', ''St'', ''Avenue'', ''Ave'', ''Road'', ''Rd'', ''Boulevard'', ''Blvd'',
                    ''Lane'', ''Ln'', ''Drive'', ''Dr'', ''Court'', ''Ct'', ''Parkway'', ''Pkwy'',
                    ''Place'', ''Pl'', ''Square'', ''Sq'', ''Trail'', ''Trl'', ''Circle'', ''Cir''],
             WordB]),
     (js ''PASSPORT'', rx [WordB, between (cls [upper]) 1 2, between digit 6 9, WordB]),
     (js ''DRIVERS_LICENSE'', rx [WordB, between (cls [upper]) 1 2, between digit 5 8, WordB]),
     (js ''MEDICAL_ID'',
        rxi [WordB, words [''MRN'', ''Medical Record'', ''Patient ID''],
             star (cls (CSpace # chars '':#-'')), between digit 6 10, WordB]),
     (js ''TAX_ID'', rx [WordB, exactly digit 2, opt (lit CHR ''-''), exactly digit 7, WordB]),
     (js ''VAT_NUMBER'',
        rxi [WordB, words [''VAT'', ''Tax ID''], star (cls (CSpace # chars '':#-'')),
             exactly (cls [upper]) 2, between digit 8 12, WordB]),
     (js ''API_KEY_OPENAI'', rx [WordB, str ''sk-'', exactly (cls [upper, lower, num]) 48, WordB]),
     (js ''API_KEY_AWS'',
        rx [WordB, words [''AKIA'', ''ASIA''], exactly (cls [upper, num]) 16, WordB]),
     (js ''API_KEY_GENERIC'',
        rxi [WordB,
             alt [seq [str ''api'', opt (cls (chars ''_-'')), str ''key''], str ''apikey'',
                  seq [str ''api'', opt (cls (chars ''_-'')), str ''secret'']],
             many1 (cls (CSpace # chars '':='')), opt (cls quotes),
             at_least (cls ([upper, lower, num] @ chars ''_-'')) 20, opt (cls quotes), WordB]),
     (js ''SECRET_KEY'',
        rxi [WordB,
             alt [seq [str ''secret'', opt (cls (chars ''_-'')), str ''key''],
                  seq [str ''private'', opt (cls (chars ''_-'')), str ''key''],
                  seq [str ''access'', opt (cls (chars ''_-'')), str ''token'']],
             many1 (cls (CSpace # chars '':='')), opt (cls quotes),
             at_least (cls ([upper, lower, num] @ chars ''_-'')) 20, opt (cls quotes), WordB]),
     (js ''KEYWORDS'',
        rxi [WordB,
             alt [str ''client name'', str ''customer name'',
                  units [1514, 1497, 1511, 32, 1502, 1505],
                  units [1502, 1505, 1508, 1512, 32, 1514, 1497, 1511],
                  str ''salary list'', str ''client list'', str ''customer list'',
                  str ''employee list'', str ''confidential'', str ''proprietary''],
             WordB])]"

definition SQL_INJECTION_PATTERNS :: "regexp list" where
  "SQL_INJECTION_PATTERNS =
    [rxi [WordB, str ''UNION'', WordB, star Dot, WordB, str ''SELECT'', WordB],
     rxi [WordB, str ''DROP'', WordB, star Dot, WordB, str ''TABLE'', WordB],
     rxi [WordB, str ''INSERT'', WordB, star Dot, WordB, str ''INTO'', WordB, star Dot,
          WordB, str ''VALUES'', WordB],
     rxi [WordB, str ''DELETE'', WordB, star Dot, WordB, str ''FROM'', WordB],
     rxi [WordB, str ''UPDATE'', WordB, star Dot, WordB, str ''SET'', WordB],
     rxi [lit CHR '';'', star Dot, WordB, str ''DROP'', WordB],
     rxi [Chr 39, star Dot, str ''OR'', star Dot, Chr 39, star Dot, lit CHR ''='', star Dot, Chr 39],
     rx [alt [str ''--'', lit CHR ''#'', seq [str ''/*'', star Dot, str ''*/'']]],
     rxi [Or (seq [WordB, str ''EXEC'', WordB]) (seq [WordB, str ''EXECUTE'', WordB])],
     rxi [WordB, str ''xp_cmdshell'', WordB]]"

definition XSS_PATTERNS :: "regexp list" where
  "XSS_PATTERNS =
    [rxi [str ''<script'', WordB, star (ncls (chars ''>'')), lit CHR ''>'',
          star_lazy (cls [CSpace, CNotSpace]), str ''</script>''],
     rxi [str ''<iframe'', WordB, star (ncls (chars ''>'')), lit CHR ''>''],
     rxi [str ''javascript:''],
     rxi [str ''on'',
          alt [str ''load'', str ''error'', str ''click'', seq [str ''mouse'', many1 wordc],
               str ''focus'', str ''blur''],
          star space, lit CHR ''=''],
     rxi [str ''<img'', many1 (ncls (chars ''>'')), str ''src'', star space, lit CHR ''='', star space,
          opt (cls quotes), str ''javascript:''],
     rxi [str ''<object'', WordB, star (ncls (chars ''>'')), lit CHR ''>''],
     rxi [str ''<embed'', WordB, star (ncls (chars ''>'')), lit CHR ''>''],
     rxi [str ''eval'', star space, lit CHR ''(''],
     rxi [str ''expression'', star space, lit CHR ''(''],
     rxi [str ''vbscript:'']]"

definition JAILBREAK_PATTERNS :: "regexp list" where
  "JAILBREAK_PATTERNS =
    [rxi [str ''ignore'', many1 space, opt (seq [str ''all'', many1 space]),
          words [''previous'', ''prior'', ''above''], many1 space,
          str ''instruction'', opt (lit CHR ''s'')],
     rxi [str ''disregard'', many1 space, opt (seq [str ''all'', many1 space]),
          words [''previous'', ''prior'', ''above''], many1 space,
          alt [seq [str ''instruction'', opt (lit CHR ''s'')], seq [str ''rule'', opt (lit CHR ''s'')]]],
     rxi [str ''forget'', many1 space, opt (seq [str ''all'', many1 space]),
          words [''previous'', ''prior'', ''above''], many1 space,
          str ''instruction'', opt (lit CHR ''s'')],
     rxi [str ''bypass'', many1 space, words [''safety'', ''security'', ''filter'', ''protection'']],
     rxi [str ''disable'', many1 space, words [''safety'', ''security'', ''filter'', ''protection'']],
     rxi [str ''override'', many1 space, words [''safety'', ''security'', ''filter'', ''protection'']],
     rxi [str ''you'', many1 space, str ''are'', many1 space, str ''now'', many1 space,
          words [''a'', ''an''], many1 space, many1 wordc],
     rxi [str ''act'', many1 space, str ''as'', many1 space, words [''if'', ''though''], many1 space,
          str ''you'', many1 space, words [''are'', ''were'']],
     rxi [str ''pretend'', many1 space,
          alt [seq [str ''you'', many1 space, str ''are''], seq [str ''to'', many1 space, str ''be'']]],
     rxi [str ''reveal'', many1 space, opt (seq [str ''your'', many1 space]),
          opt (seq [str ''system'', many1 space]),
          alt [str ''prompt'', seq [str ''instruction'', opt (lit CHR ''s'')]]],
     rxi [str ''show'', many1 space, opt (seq [str ''me'', many1 space]),
          opt (seq [str ''your'', many1 space]), opt (seq [str ''system'', many1 space]),
          alt [str ''prompt'', seq [str ''instruction'', opt (lit CHR ''s'')]]],
     rxi [str ''what'', many1 space, words [''are'', ''is''], many1 space, str ''your'', many1 space,
          opt (seq [str ''system'', many1 space]),
          alt [str ''prompt'', seq [str ''instruction'', opt (lit CHR ''s'')]]],
     rxi [str ''print'', many1 space, str ''all'', many1 space,
          alt [seq [str ''client'', opt (lit CHR ''s'')], seq [str ''customer'', opt (lit CHR ''s'')],
               seq [str ''user'', opt (lit CHR ''s'')], str ''data'']],
     rxi [str ''show'', many1 space, str ''all'', many1 space,
          alt [seq [str ''client'', opt (lit CHR ''s'')], seq [str ''customer'', opt (lit CHR ''s'')],
               seq [str ''user'', opt (lit CHR ''s'')], str ''data'']],
     rxi [str ''list'', many1 space, str ''all'', many1 space,
          alt [seq [str ''client'', opt (lit CHR ''s'')], seq [str ''customer'', opt (lit CHR ''s'')],
               seq [str ''user'', opt (lit CHR ''s'')], str ''data'']],
     rxi [str ''reveal'', many1 space, opt (seq [str ''all'', many1 space]),
          words [''hidden'', ''secret'', ''private''], many1 space, str ''data''],
     rxi [str ''export'', many1 space, str ''all'', many1 space, str ''data''],
     rxi [WordB, str ''DAN'', many1 space, str ''mode'', WordB],
     rxi [str ''do'', many1 space, str ''anything'', many1 space, str ''now''],
     rxi [str ''developer'', many1 space, str ''mode''],
     rxi [str ''[SYSTEM]''],
     rxi [str ''[ADMIN]''],
     rxi [str ''[ROOT]''],
     rxi [str ''sudo'', many1 space]]"

subsection \<open>The \<open>lastIndex\<close> of the module-level patterns\<close>

text \<open>
  Every pattern of the four tables is one RegExp object with the \<open>g\<close> flag, created when
  the module loads and shared by all calls; \<open>exec\<close> and \<open>test\<close> read and write its
  \<open>lastIndex\<close>. The state of the module is the \<open>lastIndex\<close> of each pattern, addressed by
  its table and its position there.
\<close>

datatype pattern_table = PII_TABLE | SQL_TABLE | XSS_TABLE | JAILBREAK_TABLE

type_synonym lastIndexes = "pattern_table \<times> nat \<Rightarrow> nat"

definition enumerate_from0 :: "'a list \<Rightarrow> (nat \<times> 'a) list" where
  "enumerate_from0 xs = zip [0..<length xs] xs"

subsection \<open>detectBulkData\<close>

record bulkData =
  isBulk :: bool
  rowCount :: nat

text \<open>
  All matches of a pattern with the \<open>g\<close> flag from \<open>lastIndex\<close> on, as
  \<open>String.prototype.match\<close> collects them: after an empty match the search resumes one
  code unit further. (\<open>lastIndex\<close> always advances; the test makes that plain to the
  termination proof.)
\<close>

function match_all :: "regexp \<Rightarrow> jstring \<Rightarrow> nat \<Rightarrow> (nat \<times> nat) list" where
  "match_all re s lastIndex =
     (case fst (regexp_exec re s lastIndex) of
        None \<Rightarrow> []
      | Some (i, e) \<Rightarrow>
          (i, e) # (let next = (if e = i then e + 1 else e)
                    in if lastIndex < next \<and> lastIndex \<le> length s then match_all re s next else []))"
  by pat_completeness auto
termination
  by (relation "measure (\<lambda>(re, s, lastIndex). Suc (length s) - lastIndex)") auto

declare match_all.simps [simp del]

text \<open>
  \<open>line.split(/\s{2,}/).length\<close>: the pattern never matches the empty string, so the
  pieces are one more than its matches in the line.
\<close>

definition two_spaces :: regexp where
  "two_spaces = rx [at_least space 2]"

definition is_table_row :: "jstring \<Rightarrow> bool" where
  "is_table_row line =
     ((str_includes line (js '','') \<and> length (split_on 44 line) > 3) \<or>
      (str_includes line [9] \<and> length (split_on 9 line) > 3) \<or>
      (match_all two_spaces line 0 \<noteq> [] \<and> length (match_all two_spaces line 0) + 1 > 3))"

definition detectBulkData :: "jstring \<Rightarrow> bulkData" where
  "detectBulkData text =
     (let lines = split_on 10 text;
          lineCount = length lines;
          tableRows = length (filter is_table_row lines)
      in if tableRows > 10 then \<lparr> isBulk = True, rowCount = tableRows \<rparr>
         else
           (let bulkIndicators = [js ''list of'', js ''all clients'', js ''all customers'', js ''full list''];
                hasBulkIndicators = list_ex (\<lambda>indicator. str_includes (toLowerCase text) indicator) bulkIndicators
            in \<lparr> isBulk = (hasBulkIndicators \<or> lineCount > 50), rowCount = lineCount \<rparr>))"

subsection \<open>detectSQLInjection, detectXSS, detectJailbreak\<close>

definition whole_text :: "jstring \<Rightarrow> jstring \<Rightarrow> finding" where
  "whole_text type text =
     \<lparr> ftype = type, offsetStart = 0, offsetEnd = length text, fvalue = None, details = None,
       category = None \<rparr>"

text \<open>
  The loop of the three scanners: reset \<open>lastIndex\<close>, \<open>test\<close>, and on a match push one
  finding and \<open>break\<close>.
\<close>

fun scan_patterns ::
  "pattern_table \<Rightarrow> jstring \<Rightarrow> (nat \<times> regexp) list \<Rightarrow> jstring \<Rightarrow> lastIndexes \<Rightarrow> finding list \<times> lastIndexes" where
  "scan_patterns T type [] text h = ([], h)"
| "scan_patterns T type ((k, pattern) # rest) text h =
     (let h0 = h((T, k) := 0);
          r = regexp_exec pattern text (h0 (T, k));
          h1 = h0((T, k) := snd r)
      in if fst r \<noteq> None then ([whole_text type text], h1)
         else scan_patterns T type rest text h1)"

definition detectSQLInjection :: "jstring \<Rightarrow> lastIndexes \<Rightarrow> finding list \<times> lastIndexes" where
  "detectSQLInjection text h =
     scan_patterns SQL_TABLE (js ''SQL_INJECTION'') (enumerate_from0 SQL_INJECTION_PATTERNS) text h"

definition detectXSS :: "jstring \<Rightarrow> lastIndexes \<Rightarrow> finding list \<times> lastIndexes" where
  "detectXSS text h =
     scan_patterns XSS_TABLE (js ''XSS_ATTEMPT'') (enumerate_from0 XSS_PATTERNS) text h"

definition detectJailbreak :: "jstring \<Rightarrow> lastIndexes \<Rightarrow> finding list \<times> lastIndexes" where
  "detectJailbreak text h =
     scan_patterns JAILBREAK_TABLE (js ''JAILBREAK_PATTERN'') (enumerate_from0 JAILBREAK_PATTERNS) text h"

subsection \<open>detectPII\<close>

definition pii_finding :: "jstring \<Rightarrow> jstring \<Rightarrow> nat \<times> nat \<Rightarrow> finding" where
  "pii_finding type text m =
     \<lparr> ftype = type, offsetStart = fst m, offsetEnd = snd m,
       fvalue = Some (substring text (fst m) (snd m)), details = None, category = None \<rparr>"

text \<open>
  \<open>while ((match = pattern.exec(text)) !== null) findings.push(...)\<close>. A pattern that
  matched the empty string would leave \<open>lastIndex\<close> where it is and the loop would not
  end; the loop is therefore a partial function, \<open>None\<close> when it does not return.
\<close>

partial_function (option) exec_loop ::
  "regexp \<Rightarrow> jstring \<Rightarrow> jstring \<Rightarrow> nat \<Rightarrow> finding list \<Rightarrow> (finding list \<times> nat) option" where
  "exec_loop pattern type text lastIndex found =
     (case regexp_exec pattern text lastIndex of
        (None, li) \<Rightarrow> Some (found, li)
      | (Some m, li) \<Rightarrow> exec_loop pattern type text li (found @ [pii_finding type text m]))"

declare exec_loop.simps [code]

fun pii_entries ::
  "(nat \<times> jstring \<times> regexp) list \<Rightarrow> jstring \<Rightarrow> lastIndexes \<Rightarrow> finding list \<Rightarrow> (finding list \<times> lastIndexes) option" where
  "pii_entries [] text h found = Some (found, h)"
| "pii_entries ((k, type, pattern) # rest) text h found =
     (let h0 = h((PII_TABLE, k) := 0)
      in case exec_loop pattern type text (h0 (PII_TABLE, k)) found of
           None \<Rightarrow> None
         | Some (found', li) \<Rightarrow> pii_entries rest text (h0((PII_TABLE, k) := li)) found')"

definition detectPII :: "jstring \<Rightarrow> lastIndexes \<Rightarrow> (finding list \<times> lastIndexes) option" where
  "detectPII text h = pii_entries (enumerate_from0 PII_PATTERNS) text h []"

subsection \<open>calculateAnomalyScore and analyzeText\<close>

definition highRiskTypes :: "jstring list" where
  "highRiskTypes =
     [js ''SQL_INJECTION'', js ''XSS_ATTEMPT'', js ''JAILBREAK_PATTERN'',
      js ''API_KEY_OPENAI'', js ''API_KEY_AWS'',
      js ''SSN'', js ''CREDIT_CARD'', js ''PASSPORT'', js ''DRIVERS_LICENSE'', js ''MEDICAL_ID'',
      js ''IBAN'']"

definition calculateAnomalyScore :: "finding list \<Rightarrow> jstring \<Rightarrow> nat" where
  "calculateAnomalyScore fs text =
     (let score0 = min (length fs * 5) 30;
          highRiskCount = length (filter (\<lambda>f. ftype f \<in> set highRiskTypes) fs);
          score1 = score0 + highRiskCount * 25;
          uniqueTypes = remdups (map ftype fs);
          score2 = (if length uniqueTypes > 3 then score1 + 15 else score1);
          score3 = (if length text > 1000 \<and> length fs > 5 then score2 + 10 else score2)
      in min score3 100)"

text \<open>
  \<open>analyzeText\<close> from ``Combine findings'' on: the analysis made of what the five scanners
  returned.
\<close>

definition analysis_from ::
  "jstring \<Rightarrow> finding list \<Rightarrow> bulkData \<Rightarrow> finding list \<Rightarrow> finding list \<Rightarrow> finding list \<Rightarrow> analysis" where
  "analysis_from text piiFindings bulkData sqlFindings xssFindings jailbreakFindings =
     (let allFindings = piiFindings @ sqlFindings @ xssFindings @ jailbreakFindings @
            (if isBulk bulkData then
               [\<lparr> ftype = js ''BULK_DATA'', offsetStart = 0, offsetEnd = length text,
                  fvalue = None, details = Some (rowCount bulkData), category = None \<rparr>]
             else []);
          score = calculateAnomalyScore allFindings text;
          hasHighRiskFindings =
            (length sqlFindings > 0 \<or> length xssFindings > 0 \<or> length jailbreakFindings > 0);
          hasAPIKeys =
            list_ex (\<lambda>f. str_includes (ftype f) (js ''API_KEY'') \<or> str_includes (ftype f) (js ''SECRET''))
              allFindings
      in \<lparr> riskLevel =
             (if hasHighRiskFindings \<or> hasAPIKeys \<or> score \<ge> 70 then HIGH
              else if length allFindings > 0 \<or> isBulk bulkData \<or> score \<ge> 40 then MEDIUM
              else LOW),
           findings = allFindings,
           anomalyScore = score \<rparr>)"

definition analyzeText :: "jstring \<Rightarrow> lastIndexes \<Rightarrow> (analysis \<times> lastIndexes) option" where
  "analyzeText text h =
     (case detectPII text h of
        None \<Rightarrow> None
      | Some (piiFindings, h1) \<Rightarrow>
          (let bulkData = detectBulkData text;
               sql = detectSQLInjection text h1;
               xss = detectXSS text (snd sql);
               jailbreak = detectJailbreak text (snd xss)
           in Some (analysis_from text piiFindings bulkData (fst sql) (fst xss) (fst jailbreak),
                    snd jailbreak)))"

text \<open>Calls of \<open>analyzeText\<close> one after the other on the same module state.\<close>

fun analyze_each :: "jstring list \<Rightarrow> lastIndexes \<Rightarrow> (analysis list \<times> lastIndexes) option" where
  "analyze_each [] h = Some ([], h)"
| "analyze_each (text # texts) h =
     (case analyzeText text h of
        None \<Rightarrow> None
      | Some (a, h1) \<Rightarrow>
          (case analyze_each texts h1 of
             None \<Rightarrow> None
           | Some (as, h2) \<Rightarrow> Some (a # as, h2)))"

section \<open>Anonymizer (anonymizer module)\<close>

record summary =
  removed :: "jstring list"
  bulkDataHandled :: bool

record anonymizationResult =
  sanitizedText :: jstring
  changed :: bool
  summary :: summary

text \<open>
  \<open>Array.prototype.sort\<close> with a comparator: a stable sort, and it sorts the array it is
  called on in place, returning that same array.
\<close>

fun insert_by :: "('a \<Rightarrow> 'a \<Rightarrow> int) \<Rightarrow> 'a \<Rightarrow> 'a list \<Rightarrow> 'a list" where
  "insert_by cmp x [] = [x]"
| "insert_by cmp x (y # ys) = (if cmp x y \<le> 0 then x # y # ys else y # insert_by cmp x ys)"

definition array_sort :: "('a \<Rightarrow> 'a \<Rightarrow> int) \<Rightarrow> 'a list \<Rightarrow> 'a list" where
  "array_sort cmp xs = foldr (insert_by cmp) xs []"

text \<open>The \<open>switch\<close> on the finding type: the replacement and the entry of \<open>removedTypes\<close>.\<close>

definition replacement_for :: "jstring \<Rightarrow> jstring \<times> jstring" where
  "replacement_for type =
     (if type = js ''EMAIL'' then (js ''[EMAIL]'', js ''EMAIL'')
      else if type = js ''PHONE'' then (js ''[PHONE_NUMBER]'', js ''PHONE'')
      else if type = js ''SSN'' then (js ''[SSN]'', js ''SSN'')
      else if type = js ''CREDIT_CARD'' then (js ''[CREDIT_CARD]'', js ''CREDIT_CARD'')
      else if type = js ''ID_NUMBER'' then (js ''[ID_NUMBER]'', js ''ID_NUMBER'')
      else if type = js ''IBAN'' then (js ''[IBAN]'', js ''IBAN'')
      else if type = js ''ADDRESS'' then (js ''[ADDRESS]'', js ''ADDRESS'')
      else if type = js ''PASSPORT'' then (js ''[PASSPORT]'', js ''PASSPORT'')
      else if type = js ''DRIVERS_LICENSE'' then (js ''[DL]'', js ''DRIVERS_LICENSE'')
      else if type = js ''MEDICAL_ID'' then (js ''[MEDICAL_ID]'', js ''MEDICAL_ID'')
      else if type = js ''TAX_ID'' then (js ''[TAX_ID]'', js ''TAX_ID'')
      else if type = js ''VAT_NUMBER'' then (js ''[VAT]'', js ''VAT_NUMBER'')
      else if type = js ''API_KEY_OPENAI'' \<or> type = js ''API_KEY_AWS'' \<or> type = js ''API_KEY_GENERIC''
              \<or> type = js ''SECRET_KEY'' then (js ''[API_KEY]'', js ''API_KEY'')
      else (js ''['' @ type @ js '']'', type))"

definition set_add :: "'a list \<Rightarrow> 'a \<Rightarrow> 'a list" where
  "set_add xs x = (if x \<in> set xs then xs else xs @ [x])"

definition charAt :: "jstring \<Rightarrow> nat \<Rightarrow> jstring" where
  "charAt s i = (if i < length s then [s ! i] else [])"

record anonymizer_state =
  st_text :: jstring
  st_changed :: bool
  st_removedTypes :: "jstring list"
  st_bulkDataHandled :: bool

text \<open>The body of the loop over the sorted findings.\<close>

definition anonymize_finding :: "anonymizer_state \<Rightarrow> finding \<Rightarrow> anonymizer_state" where
  "anonymize_finding st f =
     (if ftype f = js ''BULK_DATA'' then st \<lparr> st_bulkDataHandled := True \<rparr>
      else if ftype f = js ''EXFIL_ATTEMPT'' \<or> ftype f = js ''JAILBREAK_PATTERN''
              \<or> ftype f = js ''SQL_INJECTION'' \<or> ftype f = js ''XSS_ATTEMPT'' then st
      else
        (let replacement = fst (replacement_for (ftype f));
             removedTypes = set_add (st_removedTypes st) (snd (replacement_for (ftype f)));
             afterChar = charAt (st_text st) (offsetEnd f);
             addSpace = (if afterChar \<noteq> [] \<and> list_ex is_space afterChar then [] else js '' '')
         in st \<lparr> st_text := substring (st_text st) 0 (offsetStart f) @ replacement @ addSpace
                              @ drop (offsetEnd f) (st_text st),
                 st_changed := True,
                 st_removedTypes := removedTypes \<rparr>))"

text \<open>
  \<open>anonymizeText\<close> returns its result; the second component is the caller's \<open>findings\<close>
  array as the call leaves it (\<open>findings.sort\<close> works on that very array).
\<close>

definition anonymizeText :: "jstring \<Rightarrow> finding list \<Rightarrow> anonymizationResult \<times> finding list" where
  "anonymizeText text fs =
     (let sortedFindings = array_sort (\<lambda>a b. int (offsetStart b) - int (offsetStart a)) fs;
          st = foldl anonymize_finding
                 \<lparr> st_text = text, st_changed = False, st_removedTypes = [], st_bulkDataHandled = False \<rparr>
                 sortedFindings;
          bulkLarge = (case find (\<lambda>f. ftype f = js ''BULK_DATA'') sortedFindings of
                         None \<Rightarrow> False
                       | Some b \<Rightarrow> (case details b of None \<Rightarrow> False | Some rows \<Rightarrow> rows > 10))
      in (\<lparr> sanitizedText = st_text st, changed = st_changed st,
            summary = \<lparr> removed = st_removedTypes st,
                        bulkDataHandled = (st_bulkDataHandled st \<or> bulkLarge) \<rparr> \<rparr>,
          sortedFindings))"

section \<open>Output Filter (outputFilter module)\<close>

text \<open>
  A value of the entity map handed to \<open>scanOutput\<close>: the bare string that
  \<open>detectReversalAttempts\<close> expects, or an object with string properties such as the
  \<open>{originalValue, category}\<close> that \<open>buildEntityMap\<close> stores. The map itself is the
  list of its entries in the order in which \<open>Object.entries\<close> yields them (keys that
  are array indexes first, in ascending order, then the other keys as they were inserted).
\<close>

datatype map_value = JString jstring | JObject "(jstring \<times> jstring) list"

datatype js_error = TypeError

record attempt =
  placeholder :: jstring
  original :: jstring
  partial :: "jstring option"
  acontext :: jstring

record suspicious =
  keyword :: jstring
  scontext :: jstring
  reason :: jstring

datatype output_finding =
    SENSITIVE_IN_OUTPUT "finding list"
  | REVERSAL_ATTEMPT "attempt list"
  | SUSPICIOUS_PATTERN "suspicious list"

record scanResult =
  safe :: bool
  ofindings :: "output_finding list"
  otext :: "jstring option"
  originalText :: "jstring option"
  maskedText :: "jstring option"

definition getContext :: "jstring \<Rightarrow> jstring \<Rightarrow> nat \<Rightarrow> jstring" where
  "getContext text match radius =
     (case indexOf (toLowerCase text) (toLowerCase match) of
        None \<Rightarrow> []
      | Some index \<Rightarrow>
          js ''...'' @ substring text (index - radius) (min (length text) (index + length match + radius))
          @ js ''...'')"

text \<open>\<open>original.split(/[@._\-\s]/)\<close>: the pieces between the delimiters.\<close>

fun split_where :: "(int \<Rightarrow> bool) \<Rightarrow> jstring \<Rightarrow> jstring list" where
  "split_where d [] = [[]]"
| "split_where d (c # cs) =
     (if d c then [] # split_where d cs
      else case split_where d cs of [] \<Rightarrow> [[c]] | p # ps \<Rightarrow> (c # p) # ps)"

definition findPartialMatch :: "jstring \<Rightarrow> jstring \<Rightarrow> jstring option" where
  "findPartialMatch text orig =
     find (\<lambda>part. length part > 3 \<and> str_includes (toLowerCase text) (toLowerCase part))
       (split_where (\<lambda>c. c = 64 \<or> c = 46 \<or> c = 95 \<or> c = 45 \<or> is_space c) orig)"

text \<open>
  \<open>original.toLowerCase()\<close> is a call of a method that only strings have: on an object
  it throws a TypeError, which leaves the loop and the function.
\<close>

fun detectReversalAttempts :: "jstring \<Rightarrow> (jstring \<times> map_value) list \<Rightarrow> js_error + attempt list" where
  "detectReversalAttempts text [] = Inr []"
| "detectReversalAttempts text ((ph, v) # rest) =
     (case v of
        JObject obj \<Rightarrow> Inl TypeError
      | JString orig \<Rightarrow>
          (let full = (if str_includes (toLowerCase text) (toLowerCase orig) then
                         [\<lparr> placeholder = ph, original = orig, partial = None,
                            acontext = getContext text orig 50 \<rparr>]
                       else []);
               part = (case findPartialMatch text orig of
                         None \<Rightarrow> []
                       | Some pm \<Rightarrow>
                           [\<lparr> placeholder = ph, original = orig, partial = Some pm,
                              acontext = getContext text pm 50 \<rparr>])
           in case detectReversalAttempts text rest of
                Inl e \<Rightarrow> Inl e
              | Inr others \<Rightarrow> Inr (full @ part @ others)))"

definition detectSuspiciousPatterns :: "jstring \<Rightarrow> suspicious list" where
  "detectSuspiciousPatterns text =
     map (\<lambda>k. \<lparr> keyword = k, scontext = getContext text k 30,
                reason = js ''LLM discussing anonymization process'' \<rparr>)
       (filter (\<lambda>k. str_includes (toLowerCase text) (toLowerCase k))
          [js ''anonymized'', js ''placeholder'', js ''redacted'', js ''masked'',
           js ''EMAIL_1'', js ''PHONE_1'', js ''SSN_1'', js ''CLIENT_1''])"

text \<open>
  \<open>masked.replace(new RegExp(escapeRegex(x), 'gi'), r)\<close>: every match of the literal \<open>x\<close>,
  compared without regard to case, is replaced by the expansion of \<open>r\<close>, in which \<open>$$\<close>,
  \<open>$&\<close>, \<open>$`\<close> and \<open>$'\<close> stand for a dollar sign, the match, and the text before and
  after it. (The case folding of the model is that of ASCII letters; values that hold
  other cased letters are outside it.)
\<close>

fun getSubstitution :: "jstring \<Rightarrow> jstring \<Rightarrow> jstring \<Rightarrow> jstring \<Rightarrow> jstring" where
  "getSubstitution [] matched before after = []"
| "getSubstitution [c] matched before after = [c]"
| "getSubstitution (c # d # r) matched before after =
     (if c = 36 \<and> d = 36 then 36 # getSubstitution r matched before after
      else if c = 36 \<and> d = 38 then matched @ getSubstitution r matched before after
      else if c = 36 \<and> d = 96 then before @ getSubstitution r matched before after
      else if c = 36 \<and> d = 39 then after @ getSubstitution r matched before after
      else c # getSubstitution (d # r) matched before after)"

fun splice :: "jstring \<Rightarrow> nat \<Rightarrow> (nat \<times> nat) list \<Rightarrow> jstring \<Rightarrow> jstring" where
  "splice s k [] r = drop k s"
| "splice s k (m # ms) r =
     substring s k (fst m) @ getSubstitution r (substring s (fst m) (snd m)) (take (fst m) s) (drop (snd m) s)
     @ splice s (snd m) ms r"

definition replace_all_ci :: "jstring \<Rightarrow> jstring \<Rightarrow> jstring \<Rightarrow> jstring" where
  "replace_all_ci s x r = splice s 0 (match_all \<lparr> source = units x, ignoreCase = True \<rparr> s 0) r"

definition mask_pattern :: "jstring \<Rightarrow> finding \<Rightarrow> jstring" where
  "mask_pattern masked f =
     (case fvalue f of
        None \<Rightarrow> masked
      | Some v \<Rightarrow> if v = [] then masked else replace_all_ci masked v (js ''[REDACTED]''))"

definition mask_attempt :: "jstring \<Rightarrow> attempt \<Rightarrow> jstring" where
  "mask_attempt masked a =
     (let m1 = replace_all_ci masked (original a) (placeholder a)
      in case partial a of
           None \<Rightarrow> m1
         | Some pm \<Rightarrow> if pm = [] then m1 else replace_all_ci m1 pm (js ''[REDACTED]''))"

fun mask_finding :: "jstring \<Rightarrow> output_finding \<Rightarrow> jstring" where
  "mask_finding masked (SENSITIVE_IN_OUTPUT patterns) = foldl mask_pattern masked patterns"
| "mask_finding masked (REVERSAL_ATTEMPT attempts) = foldl mask_attempt masked attempts"
| "mask_finding masked (SUSPICIOUS_PATTERN patterns) = masked"

definition maskSensitiveContent :: "jstring \<Rightarrow> output_finding list \<Rightarrow> jstring" where
  "maskSensitiveContent text fs = foldl mask_finding text fs"

text \<open>
  \<open>scanOutput\<close> is \<open>async\<close>: an exception inside it is the rejection of the promise it
  returns (\<open>Inl\<close>), not a result object.
\<close>

definition scanOutput ::
  "jstring \<Rightarrow> (jstring \<times> map_value) list \<Rightarrow> lastIndexes \<Rightarrow> ((js_error + scanResult) \<times> lastIndexes) option" where
  "scanOutput text originalEntityMap h =
     (case analyzeText text h of
        None \<Rightarrow> None
      | Some (a, h1) \<Rightarrow>
          Some
            ((let f1 = (if length (findings a) > 0 then [SENSITIVE_IN_OUTPUT (findings a)] else [])
              in case detectReversalAttempts text originalEntityMap of
                   Inl e \<Rightarrow> Inl e
                 | Inr reversalAttempts \<Rightarrow>
                     (let f2 = (if length reversalAttempts > 0 then [REVERSAL_ATTEMPT reversalAttempts] else []);
                          sus = detectSuspiciousPatterns text;
                          f3 = (if length sus > 0 then [SUSPICIOUS_PATTERN sus] else []);
                          fs = f1 @ f2 @ f3
                      in if length fs > 0 then
                           Inr \<lparr> safe = False, ofindings = fs, otext = None, originalText = Some text,
                                 maskedText = Some (maskSensitiveContent text fs) \<rparr>
                         else
                           Inr \<lparr> safe = True, ofindings = [], otext = Some text, originalText = None,
                                 maskedText = None \<rparr>)),
             h1))"

section \<open>Auxiliary notions for the proofs\<close>

text \<open>
  \<open>consumed p q\<close>: position \<open>q\<close> is position \<open>p\<close> after some code units were read.
  \<open>minlen r\<close>: a lower bound on the length of every match of \<open>r\<close>.
\<close>

definition consumed :: "pos \<Rightarrow> pos \<Rightarrow> bool" where
  "consumed p q = (fst p \<le> fst q \<and> fst q + length (snd (snd q)) = fst p + length (snd (snd p)))"

fun minlen :: "regex \<Rightarrow> nat" where
  "minlen Eps = 0"
| "minlen (Chr c) = 1"
| "minlen (Cls neg items) = 1"
| "minlen Dot = 1"
| "minlen WordB = 0"
| "minlen (Cat a b) = minlen a + minlen b"
| "minlen (Or a b) = min (minlen a) (minlen b)"
| "minlen (Rep r mn mx g) = (case mx of None \<Rightarrow> mn | Some n \<Rightarrow> min mn n) * minlen r"

text \<open>The state of the module when it has just been loaded.\<close>

definition initial_lastIndexes :: lastIndexes where
  "initial_lastIndexes = (\<lambda>r. 0)"

text \<open>\<open>pattern.lastIndex = 0; pattern.test(text)\<close> as a predicate.\<close>

definition matches :: "regexp \<Rightarrow> jstring \<Rightarrow> bool" where
  "matches pattern text = (fst (regexp_exec pattern text 0) \<noteq> None)"

text \<open>
  What the scanners return, written without the module state: the proofs below show that
  the program computes exactly these, whatever the state it starts from.
\<close>

definition pii_findings_of :: "jstring \<Rightarrow> finding list" where
  "pii_findings_of text =
     concat (map (\<lambda>(type, pattern). map (pii_finding type text) (match_all pattern text 0)) PII_PATTERNS)"

definition family_findings :: "jstring \<Rightarrow> regexp list \<Rightarrow> jstring \<Rightarrow> finding list" where
  "family_findings type patterns text =
     (if list_ex (\<lambda>p. matches p text) patterns then [whole_text type text] else [])"

definition analysis_of :: "jstring \<Rightarrow> analysis" where
  "analysis_of text =
     analysis_from text (pii_findings_of text) (detectBulkData text)
       (family_findings (js ''SQL_INJECTION'') SQL_INJECTION_PATTERNS text)
       (family_findings (js ''XSS_ATTEMPT'') XSS_PATTERNS text)
       (family_findings (js ''JAILBREAK_PATTERN'') JAILBREAK_PATTERNS text)"

text \<open>
  The risk scoring as the specification words it (for C5): the score from the number of
  findings, the number of high-risk findings, the number of distinct categories and the
  length of the text; the level from whether an injection finding or a key or secret
  finding is present, whether there are findings, whether bulk was detected, and the score.
\<close>

definition spec_anomalyScore :: "nat \<Rightarrow> nat \<Rightarrow> nat \<Rightarrow> nat \<Rightarrow> nat" where
  "spec_anomalyScore findingCount highRiskFindingCount distinctCategories len =
     min 100 (5 * min findingCount 6 + 25 * highRiskFindingCount
              + (if distinctCategories > 3 then 15 else 0)
              + (if len > 1000 \<and> findingCount > 5 then 10 else 0))"

definition spec_riskLevel :: "bool \<Rightarrow> bool \<Rightarrow> bool \<Rightarrow> bool \<Rightarrow> nat \<Rightarrow> riskLevel" where
  "spec_riskLevel injectionFinding keyFinding nonEmpty bulk score =
     (if injectionFinding \<or> keyFinding \<or> score \<ge> 70 then HIGH
      else if nonEmpty \<or> bulk \<or> score \<ge> 40 then MEDIUM
      else LOW)"

definition injection_types :: "jstring list" where
  "injection_types = [js ''SQL_INJECTION'', js ''XSS_ATTEMPT'', js ''JAILBREAK_PATTERN'']"

definition key_types :: "jstring list" where
  "key_types = [js ''API_KEY_OPENAI'', js ''API_KEY_AWS'', js ''API_KEY_GENERIC'', js ''SECRET_KEY'']"

section \<open>Properties of the matcher\<close>

text \<open>Membership in a range under the \<open>i\<close> flag is what the language definition asks for.\<close>

lemma in_cset_range:
  "in_cset ic c (CRange lo hi) = (\<exists>a. lo \<le> a \<and> a \<le> hi \<and> canonicalize ic a = canonicalize ic c)"
proof (cases ic)
  case False
  then show ?thesis by (auto simp: canonicalize_def Let_def)
next
  case True
  show ?thesis
  proof
    assume "in_cset ic c (CRange lo hi)"
    then consider "lo \<le> c \<and> c \<le> hi"
      | "lo \<le> canonicalize ic c \<and> canonicalize ic c \<le> hi"
      | "65 \<le> canonicalize ic c \<and> canonicalize ic c \<le> 90 \<and> lo \<le> canonicalize ic c + 32 \<and> canonicalize ic c + 32 \<le> hi"
      by (auto simp: Let_def)
    then show "\<exists>a. lo \<le> a \<and> a \<le> hi \<and> canonicalize ic a = canonicalize ic c"
    proof cases
      case 1
      then show ?thesis by blast
    next
      case 2
      moreover have "canonicalize ic (canonicalize ic c) = canonicalize ic c"
        by (simp add: canonicalize_def)
      ultimately show ?thesis by blast
    next
      case 3
      moreover from 3 True have "canonicalize ic (canonicalize ic c + 32) = canonicalize ic c"
        by (simp add: canonicalize_def split: if_splits)
      ultimately show ?thesis by blast
    qed
  next
    assume "\<exists>a. lo \<le> a \<and> a \<le> hi \<and> canonicalize ic a = canonicalize ic c"
    then obtain a where a: "lo \<le> a" "a \<le> hi" "canonicalize ic a = canonicalize ic c" by blast
    show "in_cset ic c (CRange lo hi)"
    proof (cases "97 \<le> a \<and> a \<le> 122")
      case True
      with a \<open>ic\<close> have "canonicalize ic c = a - 32" by (simp add: canonicalize_def)
      with True a \<open>ic\<close> show ?thesis by (simp add: Let_def)
    next
      case False
      with a have "canonicalize ic c = a" by (auto simp: canonicalize_def)
      with a \<open>ic\<close> show ?thesis by (simp add: Let_def)
    qed
  qed
qed

text \<open>Matches consume input, and no less than \<open>minlen\<close>.\<close>

lemma consumed_refl: "consumed p p"
  by (simp add: consumed_def)

lemma consumed_trans: "consumed p q \<Longrightarrow> consumed q r \<Longrightarrow> consumed p r"
  by (auto simp: consumed_def)

lemma rrep_Suc_mem:
  assumes "q \<in> set (rrep m mn (Suc mx) g p)"
  shows "(mn = 0 \<and> q = p) \<or> (\<exists>y \<in> set (m p). q \<in> set (rrep m (mn - 1) mx g y))"
  using assms by (auto simp: Let_def split: if_splits)

lemma rrep_consumed:
  assumes m: "\<And>p q. q \<in> set (m p) \<Longrightarrow> consumed p q"
  shows "q \<in> set (rrep m mn mx g p) \<Longrightarrow> consumed p q"
proof (induction mx arbitrary: mn p)
  case 0
  then show ?case by (simp add: consumed_refl)
next
  case (Suc mx)
  from rrep_Suc_mem [OF Suc.prems] show ?case
  proof
    assume "mn = 0 \<and> q = p"
    then show ?thesis by (simp add: consumed_refl)
  next
    assume "\<exists>y \<in> set (m p). q \<in> set (rrep m (mn - 1) mx g y)"
    then obtain y where y: "y \<in> set (m p)" and q: "q \<in> set (rrep m (mn - 1) mx g y)" by blast
    from m [OF y] Suc.IH [OF q] show ?thesis by (rule consumed_trans)
  qed
qed

lemma rmatch_consumed: "q \<in> set (rmatch r ic p) \<Longrightarrow> consumed p q"
proof (induction r arbitrary: p q)
  case Eps
  then show ?case by (simp add: consumed_refl)
next
  case (Chr c)
  then show ?case by (cases p) (auto simp: consumed_def split: list.splits if_splits)
next
  case (Cls neg items)
  then show ?case by (cases p) (auto simp: consumed_def split: list.splits if_splits)
next
  case Dot
  then show ?case by (cases p) (auto simp: consumed_def split: list.splits if_splits)
next
  case WordB
  then show ?case by (cases p) (auto simp: consumed_def split: list.splits if_splits)
next
  case (Cat a b)
  from Cat.prems obtain y where y: "y \<in> set (rmatch a ic p)" and q: "q \<in> set (rmatch b ic y)" by auto
  from Cat.IH(1) [OF y] Cat.IH(2) [OF q] show ?case by (rule consumed_trans)
next
  case (Or a b)
  from Or.prems have "q \<in> set (rmatch a ic p) \<or> q \<in> set (rmatch b ic p)" by simp
  then show ?case using Or.IH by blast
next
  case (Rep r mn mx g)
  have "\<And>p q. q \<in> set (rmatch r ic p) \<Longrightarrow> consumed p q" using Rep.IH by blast
  from rrep_consumed [of "rmatch r ic", OF this] Rep.prems show ?case by simp
qed

lemma rrep_minlen:
  assumes m: "\<And>p q. q \<in> set (m p) \<Longrightarrow> fst p + k \<le> fst q"
  shows "q \<in> set (rrep m mn mx g p) \<Longrightarrow> fst p + min mn mx * k \<le> fst q"
proof (induction mx arbitrary: mn p)
  case 0
  then show ?case by simp
next
  case (Suc mx)
  from rrep_Suc_mem [OF Suc.prems] show ?case
  proof
    assume "mn = 0 \<and> q = p"
    then show ?thesis by simp
  next
    assume "\<exists>y \<in> set (m p). q \<in> set (rrep m (mn - 1) mx g y)"
    then obtain y where y: "y \<in> set (m p)" and q: "q \<in> set (rrep m (mn - 1) mx g y)" by blast
    have 1: "fst p + k \<le> fst y" by (rule m [OF y])
    have 2: "fst y + min (mn - 1) mx * k \<le> fst q" by (rule Suc.IH [OF q])
    have "min mn (Suc mx) * k \<le> k + min (mn - 1) mx * k"
      by (cases mn) simp_all
    with 1 2 show ?thesis by linarith
  qed
qed

lemma rmatch_minlen: "q \<in> set (rmatch r ic p) \<Longrightarrow> fst p + minlen r \<le> fst q"
proof (induction r arbitrary: p q)
  case Eps
  then show ?case by simp
next
  case (Chr c)
  then show ?case by (cases p) (auto split: list.splits if_splits)
next
  case (Cls neg items)
  then show ?case by (cases p) (auto split: list.splits if_splits)
next
  case Dot
  then show ?case by (cases p) (auto split: list.splits if_splits)
next
  case WordB
  then show ?case by (cases p) (auto split: list.splits if_splits)
next
  case (Cat a b)
  from Cat.prems obtain y where y: "y \<in> set (rmatch a ic p)" and q: "q \<in> set (rmatch b ic y)" by auto
  from Cat.IH(1) [OF y] Cat.IH(2) [OF q] show ?case by simp
next
  case (Or a b)
  from Or.prems have "q \<in> set (rmatch a ic p) \<or> q \<in> set (rmatch b ic p)" by simp
  then show ?case using Or.IH(1) [of q p] Or.IH(2) [of q p] by auto
next
  case (Rep r mn mx g)
  have m: "\<And>p q. q \<in> set (rmatch r ic p) \<Longrightarrow> fst p + minlen r \<le> fst q" using Rep.IH by blast
  show ?case
  proof (cases mx)
    case None
    with Rep.prems have "q \<in> set (rrep (rmatch r ic) mn (mn + length (snd (snd p))) g p)" by simp
    from rrep_minlen [of "rmatch r ic", OF m this] None show ?thesis by simp
  next
    case (Some n)
    with Rep.prems have "q \<in> set (rrep (rmatch r ic) mn n g p)" by simp
    from rrep_minlen [of "rmatch r ic", OF m this] Some show ?thesis by simp
  qed
qed

text \<open>
  The bound under which an unbounded quantifier is run is immaterial: any larger bound
  gives the same matches, in the same order.
\<close>

lemma rrep_one_more:
  assumes m: "\<And>p q. q \<in> set (m p) \<Longrightarrow> consumed p q"
  shows "mn + length (snd (snd p)) \<le> mx \<Longrightarrow> rrep m mn (Suc mx) g p = rrep m mn mx g p"
proof (induction mx arbitrary: mn p)
  case 0
  then have mn: "mn = 0" and rest: "length (snd (snd p)) = 0" by simp_all
  have "fst q = fst p" if "q \<in> set (m p)" for q
    using m [OF that] rest by (simp add: consumed_def)
  then have "concat (map (\<lambda>q. if fst q = fst p then [] else rrep m 0 0 g q) (m p)) = []"
    by simp
  then show ?case by (simp add: mn Let_def)
next
  case (Suc mx)
  have "(if mn = 0 \<and> fst q = fst p then [] else rrep m (mn - 1) (Suc mx) g q)
      = (if mn = 0 \<and> fst q = fst p then [] else rrep m (mn - 1) mx g q)" if q: "q \<in> set (m p)" for q
  proof (cases "mn = 0 \<and> fst q = fst p")
    case True
    then show ?thesis by simp
  next
    case False
    from m [OF q] have c: "fst p \<le> fst q" "fst q + length (snd (snd q)) = fst p + length (snd (snd p))"
      by (simp_all add: consumed_def)
    with False Suc.prems have "mn - 1 + length (snd (snd q)) \<le> mx" by (cases mn) auto
    from Suc.IH [OF this] have "rrep m (mn - 1) (Suc mx) g q = rrep m (mn - 1) mx g q" .
    then show ?thesis by (simp only:)
  qed
  then have "map (\<lambda>q. if mn = 0 \<and> fst q = fst p then [] else rrep m (mn - 1) (Suc mx) g q) (m p)
      = map (\<lambda>q. if mn = 0 \<and> fst q = fst p then [] else rrep m (mn - 1) mx g q) (m p)"
    by simp
  then show ?case
    by (simp only: rrep.simps Let_def)
qed

lemma rrep_any_bound:
  assumes m: "\<And>p q. q \<in> set (m p) \<Longrightarrow> consumed p q"
  shows "rrep m mn (mn + length (snd (snd p)) + k) g p = rrep m mn (mn + length (snd (snd p))) g p"
proof (induction k)
  case 0
  then show ?case by simp
next
  case (Suc k)
  have "rrep m mn (Suc (mn + length (snd (snd p)) + k)) g p = rrep m mn (mn + length (snd (snd p)) + k) g p"
  proof (rule rrep_one_more)
    show "\<And>p q. q \<in> set (m p) \<Longrightarrow> consumed p q" by (rule m)
    show "mn + length (snd (snd p)) \<le> mn + length (snd (snd p)) + k" by simp
  qed
  with Suc show ?case by simp
qed

lemma unbounded_quantifier:
  "rmatch (Rep r mn None g) ic p = rrep (\<lambda>q. rmatch r ic q) mn (mn + length (snd (snd p)) + k) g p"
  using rrep_any_bound [of "\<lambda>q. rmatch r ic q" mn p k g] rmatch_consumed
  by simp

text \<open>Where \<open>exec\<close> finds a match, and what it leaves in \<open>lastIndex\<close>.\<close>

lemma search_bounds:
  assumes m: "\<And>p q. q \<in> set (m p) \<Longrightarrow> consumed p q \<and> fst p + k \<le> fst q"
  shows "search m i w rest = Some (a, e) \<Longrightarrow> i \<le> a \<and> a + k \<le> e \<and> e \<le> i + length rest"
proof (induction rest arbitrary: i w)
  case Nil
  then show ?case
    using m [of _ "(i, w, [])"]
    by (subst (asm) search.simps) (fastforce simp: consumed_def split: list.splits)
next
  case (Cons x xs)
  show ?case
  proof (cases "m (i, w, x # xs)")
    case Nil
    with Cons.prems have "search m (Suc i) (is_word_char x) xs = Some (a, e)"
      by (subst (asm) search.simps) simp
    from Cons.IH [OF this] show ?thesis by simp
  next
    case (Cons q qs)
    with Cons.prems have "a = i" "e = fst q"
      by (subst (asm) search.simps, simp)+
    moreover have "q \<in> set (m (i, w, x # xs))" using Cons by simp
    from m [OF this] have "fst q + length (snd (snd q)) = i + length (x # xs)" "i + k \<le> fst q"
      by (simp_all add: consumed_def)
    ultimately show ?thesis by simp
  qed
qed

lemma regexp_exec_snd:
  "snd (regexp_exec re s li) = (case fst (regexp_exec re s li) of None \<Rightarrow> 0 | Some m \<Rightarrow> snd m)"
  by (simp add: regexp_exec_def split: prod.splits option.splits)

lemma regexp_exec_bounds:
  assumes "fst (regexp_exec re s li) = Some (a, e)"
  shows "li \<le> a \<and> a + minlen (source re) \<le> e \<and> e \<le> length s"
proof -
  from assms have li: "li \<le> length s"
    by (auto simp: regexp_exec_def split: if_splits)
  with assms have "search (rmatch (source re) (ignoreCase re)) li
       (case li of 0 \<Rightarrow> False | Suc j \<Rightarrow> j < length s \<and> is_word_char (s ! j)) (drop li s) = Some (a, e)"
    by (auto simp: regexp_exec_def pos_at_def split: option.splits)
  from search_bounds [of "rmatch (source re) (ignoreCase re)" "minlen (source re)", OF _ this] li
  show ?thesis by (simp add: rmatch_consumed rmatch_minlen)
qed


text \<open>The test in \<open>match_all\<close> never fails: after a match the search always moves on.\<close>

lemma match_all_advances:
  assumes "fst (regexp_exec re s li) = Some (i, e)"
  shows "li < (if e = i then e + 1 else e) \<and> li \<le> length s"
proof -
  from regexp_exec_bounds [OF assms] have "li \<le> i" "i \<le> e" "e \<le> length s" by simp_all
  then show ?thesis by auto
qed

text \<open>
  The loop of \<open>detectPII\<close> returns for a pattern that has no empty match, with the matches
  that \<open>match_all\<close> lists, and leaves \<open>lastIndex\<close> at 0. No pattern of the table has an
  empty match, so \<open>analyzeText\<close> returns from every state, and what it returns does not
  depend on the state.
\<close>

lemma exec_loop_match_all:
  assumes pos: "0 < minlen (source p)"
  shows "exec_loop p ty text li found = Some (found @ map (pii_finding ty text) (match_all p text li), 0)"
proof (induction "Suc (length text) - li" arbitrary: li found rule: less_induct)
  case less
  show ?case
  proof (cases "fst (regexp_exec p text li)")
    case None
    then have "regexp_exec p text li = (None, 0)"
      using regexp_exec_snd [of p "text" li] by (simp add: prod_eq_iff)
    with None show ?thesis
      by (subst exec_loop.simps, subst match_all.simps) simp
  next
    case (Some m)
    obtain a e where m: "m = (a, e)" by (cases m)
    from regexp_exec_bounds [of p "text" li a e] Some m pos
    have b: "li \<le> a" "a < e" "e \<le> length text" by auto
    have r: "regexp_exec p text li = (Some (a, e), e)"
      using regexp_exec_snd [of p "text" li] Some m by (simp add: prod_eq_iff)
    have "Suc (length text) - e < Suc (length text) - li" using b by linarith
    from less [OF this]
    have IH: "exec_loop p ty text e (found @ [pii_finding ty text (a, e)]) =
        Some ((found @ [pii_finding ty text (a, e)]) @ map (pii_finding ty text) (match_all p text e), 0)" .
    show ?thesis
      using b by (subst exec_loop.simps, subst match_all.simps) (simp add: r IH)
  qed
qed

lemma pii_entries_eq:
  assumes "\<forall>e \<in> set es. 0 < minlen (source (snd (snd e)))"
  shows "\<exists>h'. pii_entries es text h found =
    Some (found @ concat (map (\<lambda>e. map (pii_finding (fst (snd e)) text) (match_all (snd (snd e)) text 0)) es), h')"
  using assms
proof (induction es arbitrary: h found)
  case Nil
  then show ?case by simp
next
  case (Cons e es)
  obtain k ty p where e: "e = (k, ty, p)" by (cases e)
  from Cons.prems e have pos: "0 < minlen (source p)" by simp
  from Cons.prems have rest: "\<forall>e \<in> set es. 0 < minlen (source (snd (snd e)))" by simp
  define h0 where "h0 = h((PII_TABLE, k) := 0)"
  have h0: "h0 (PII_TABLE, k) = 0" "h0((PII_TABLE, k) := 0) = h0" by (simp_all add: h0_def)
  from Cons.IH [OF rest, of h0 "found @ map (pii_finding ty text) (match_all p text 0)"]
  obtain h' where "pii_entries es text h0 (found @ map (pii_finding ty text) (match_all p text 0)) =
    Some ((found @ map (pii_finding ty text) (match_all p text 0)) @
      concat (map (\<lambda>e. map (pii_finding (fst (snd e)) text) (match_all (snd (snd e)) text 0)) es), h')"
    by blast
  then have "pii_entries (e # es) text h found =
    Some (found @ concat (map (\<lambda>e. map (pii_finding (fst (snd e)) text) (match_all (snd (snd e)) text 0)) (e # es)), h')"
    unfolding e pii_entries.simps Let_def h0_def [symmetric]
    by (simp add: h0 exec_loop_match_all [OF pos])
  then show ?case by blast
qed

lemma map_snd_enumerate_from0: "map snd (enumerate_from0 xs) = xs"
  by (simp add: enumerate_from0_def)

lemma PII_PATTERNS_nonempty: "\<forall>e \<in> set PII_PATTERNS. 0 < minlen (source (snd e))"
  by code_simp

lemma detectPII_eq: "\<exists>h'. detectPII text h = Some (pii_findings_of text, h')"
proof -
  have "\<forall>e \<in> set (enumerate_from0 PII_PATTERNS). 0 < minlen (source (snd (snd e)))"
    using PII_PATTERNS_nonempty map_snd_enumerate_from0 [of PII_PATTERNS]
    by (metis (no_types, lifting) image_eqI list.set_map)
  from pii_entries_eq [OF this, of "text" h "[]"]
  obtain h' where "pii_entries (enumerate_from0 PII_PATTERNS) text h [] =
     Some (concat (map (\<lambda>e. map (pii_finding (fst (snd e)) text) (match_all (snd (snd e)) text 0)) (enumerate_from0 PII_PATTERNS)), h')"
    by auto
  moreover have "concat (map (\<lambda>e. map (pii_finding (fst (snd e)) text) (match_all (snd (snd e)) text 0)) (enumerate_from0 PII_PATTERNS))
     = concat (map (\<lambda>e. map (pii_finding (fst e) text) (match_all (snd e) text 0)) (map snd (enumerate_from0 PII_PATTERNS)))"
    by (simp add: comp_def)
  ultimately show ?thesis
    by (simp add: detectPII_def pii_findings_of_def map_snd_enumerate_from0 case_prod_unfold)
qed

lemma scan_patterns_fst:
  "fst (scan_patterns T ty ps text h) =
     (if list_ex (\<lambda>p. matches p text) (map snd ps) then [whole_text ty text] else [])"
  by (induction ps arbitrary: h) (auto simp: Let_def matches_def)

lemma analyzeText_eq: "\<exists>h'. analyzeText text h = Some (analysis_of text, h')"
proof -
  from detectPII_eq obtain h1 where "detectPII text h = Some (pii_findings_of text, h1)" by blast
  then show ?thesis
    by (simp add: analyzeText_def analysis_of_def Let_def detectSQLInjection_def detectXSS_def
        detectJailbreak_def scan_patterns_fst family_findings_def map_snd_enumerate_from0)
qed

lemma analyze_each_eq: "\<exists>h'. analyze_each texts h = Some (map analysis_of texts, h')"
proof (induction texts arbitrary: h)
  case Nil
  then show ?case by simp
next
  case (Cons t ts)
  from analyzeText_eq obtain h1 where 1: "analyzeText t h = Some (analysis_of t, h1)" by blast
  from Cons [of h1] obtain h2 where 2: "analyze_each ts h1 = Some (map analysis_of ts, h2)" by blast
  show ?case by (simp add: 1 2)
qed

lemma analyzeText_fst: "fst (the (analyzeText text h)) = analysis_of text"
  using analyzeText_eq [of "text" h] by auto

section \<open>The scanners of the injection families\<close>

lemma scan_patterns_untouched:
  assumes "r \<notin> (\<lambda>e. (T, fst e)) ` set (take (Suc (length (takeWhile (\<lambda>e. \<not> matches (snd e) text) ps))) ps)"
  shows "snd (scan_patterns T ty ps text h) r = h r"
  using assms
proof (induction ps arbitrary: h)
  case Nil
  then show ?case by simp
next
  case (Cons e ps)
  obtain k p where e: "e = (k, p)" by (cases e)
  from Cons.prems e have r: "r \<noteq> (T, k)" by auto
  show ?case
  proof (cases "matches p text")
    case True
    then show ?thesis using r by (simp add: e Let_def matches_def)
  next
    case False
    with Cons.prems e
    have "r \<notin> (\<lambda>e. (T, fst e)) ` set (take (Suc (length (takeWhile (\<lambda>e. \<not> matches (snd e) text) ps))) ps)"
      by auto
    from Cons.IH [OF this] False r show ?thesis
      by (simp add: e Let_def matches_def)
  qed
qed

lemma takeWhile_enumerate:
  "length (takeWhile (\<lambda>e. P (snd e)) (enumerate_from0 xs)) = length (takeWhile P xs)"
proof -
  have "takeWhile (\<lambda>e. P (snd e)) (enumerate_from0 xs) = takeWhile (P \<circ> snd) (enumerate_from0 xs)"
    by (simp add: comp_def)
  then have "map snd (takeWhile (\<lambda>e. P (snd e)) (enumerate_from0 xs)) = takeWhile P (map snd (enumerate_from0 xs))"
    by (simp add: takeWhile_map)
  then show ?thesis by (metis length_map map_snd_enumerate_from0)
qed

lemma fst_take_enumerate: "e \<in> set (take n (enumerate_from0 xs)) \<Longrightarrow> fst e < n"
  by (auto simp: enumerate_from0_def take_zip set_zip)

lemma scan_enumerated_untouched:
  assumes "length (takeWhile (\<lambda>p. \<not> matches p text) ps) < j"
  shows "snd (scan_patterns T ty (enumerate_from0 ps) text h) (T, j) = h (T, j)"
proof (rule scan_patterns_untouched, rule notI)
  let ?n = "Suc (length (takeWhile (\<lambda>e. \<not> matches (snd e) text) (enumerate_from0 ps)))"
  assume "(T, j) \<in> (\<lambda>e. (T, fst e)) ` set (take ?n (enumerate_from0 ps))"
  then obtain e where e: "e \<in> set (take ?n (enumerate_from0 ps))" and j: "fst e = j" by auto
  from fst_take_enumerate [OF e] have "j < ?n" by (simp add: j)
  then have "j < Suc (length (takeWhile (\<lambda>p. \<not> matches p text) ps))"
    by (simp add: takeWhile_enumerate [of "\<lambda>p. \<not> matches p text"])
  with assms show False by simp
qed

lemma scan_enumerated_fst:
  "fst (scan_patterns T ty (enumerate_from0 ps) text h) =
     (if list_ex (\<lambda>p. matches p text) ps then [whole_text ty text] else [])"
  by (simp add: scan_patterns_fst map_snd_enumerate_from0)

lemma scan_patterns_other:
  assumes "r \<notin> (\<lambda>e. (T, fst e)) ` set es"
  shows "snd (scan_patterns T ty es text h) r = h r"
proof (rule scan_patterns_untouched)
  show "r \<notin> (\<lambda>e. (T, fst e)) ` set (take (Suc (length (takeWhile (\<lambda>e. \<not> matches (snd e) text) es))) es)"
    using assms set_take_subset [of "Suc (length (takeWhile (\<lambda>e. \<not> matches (snd e) text) es))" es]
    by blast
qed

text \<open>
  The patterns up to the first one that matches are run: each is left with the
  \<open>lastIndex\<close> that its own \<open>test\<close> from 0 gives it.
\<close>

lemma scan_patterns_run:
  assumes "distinct (map fst es)"
    and "i \<le> length (takeWhile (\<lambda>e. \<not> matches (snd e) text) es)"
    and "i < length es"
  shows "snd (scan_patterns T ty es text h) (T, fst (es ! i)) = snd (regexp_exec (snd (es ! i)) text 0)"
  using assms
proof (induction es arbitrary: h i)
  case Nil
  then show ?case by simp
next
  case (Cons e es)
  obtain k p where e: "e = (k, p)" by (cases e)
  from Cons.prems(1) e have k: "(T, k) \<notin> (\<lambda>e. (T, fst e)) ` set es" and d: "distinct (map fst es)"
    by auto
  show ?case
  proof (cases i)
    case 0
    show ?thesis
    proof (cases "matches p text")
      case True
      then show ?thesis by (simp add: 0 e Let_def matches_def)
    next
      case False
      then show ?thesis
        by (simp add: 0 e Let_def matches_def scan_patterns_other [OF k])
    qed
  next
    case (Suc i')
    with Cons.prems(2) e have nm: "\<not> matches p text" by (auto split: if_splits)
    with Cons.prems(2) Suc e have 1: "i' \<le> length (takeWhile (\<lambda>e. \<not> matches (snd e) text) es)" by simp
    from Cons.prems(3) Suc have 2: "i' < length es" by simp
    from Cons.IH [OF d 1 2] nm show ?thesis
      by (simp add: Suc e Let_def matches_def)
  qed
qed

lemma enumerate_from0_nth:
  "j < length ps \<Longrightarrow> enumerate_from0 ps ! j = (j, ps ! j)"
  by (simp add: enumerate_from0_def)

lemma scan_enumerated_run:
  assumes "j \<le> length (takeWhile (\<lambda>p. \<not> matches p text) ps)" and "j < length ps"
  shows "snd (scan_patterns T ty (enumerate_from0 ps) text h) (T, j) = snd (regexp_exec (ps ! j) text 0)"
proof -
  have d: "distinct (map fst (enumerate_from0 ps))" by (simp add: enumerate_from0_def)
  have 1: "j \<le> length (takeWhile (\<lambda>e. \<not> matches (snd e) text) (enumerate_from0 ps))"
    using assms(1) by (simp add: takeWhile_enumerate [of "\<lambda>p. \<not> matches p text"])
  have 2: "j < length (enumerate_from0 ps)" using assms(2) by (simp add: enumerate_from0_def)
  from scan_patterns_run [OF d 1 2, of T ty h] assms(2) show ?thesis
    by (simp add: enumerate_from0_nth)
qed

text \<open>
  The loop on a pattern list, all in one: at most one finding, one exactly when a pattern
  matches, with the type of the family and the offsets 0 and \<open>text.length\<close>; the patterns up
  to the first matching one were run, those after it were not.
\<close>

lemma scan_enumerated_first_match:
  "length (fst (scan_patterns T ty (enumerate_from0 ps) text h)) \<le> 1 \<and>
   (fst (scan_patterns T ty (enumerate_from0 ps) text h) \<noteq> []) = list_ex (\<lambda>p. matches p text) ps \<and>
   (\<forall>f \<in> set (fst (scan_patterns T ty (enumerate_from0 ps) text h)).
      ftype f = ty \<and> offsetStart f = 0 \<and> offsetEnd f = length text \<and>
      fvalue f = None \<and> details f = None \<and> category f = None) \<and>
   (\<forall>j \<le> length (takeWhile (\<lambda>p. \<not> matches p text) ps). j < length ps \<longrightarrow>
      snd (scan_patterns T ty (enumerate_from0 ps) text h) (T, j) = snd (regexp_exec (ps ! j) text 0)) \<and>
   (\<forall>j > length (takeWhile (\<lambda>p. \<not> matches p text) ps).
      snd (scan_patterns T ty (enumerate_from0 ps) text h) (T, j) = h (T, j))"
  by (simp add: scan_enumerated_fst whole_text_def scan_enumerated_run scan_enumerated_untouched)

section \<open>Scoring\<close>

lemma calculateAnomalyScore_spec:
  "calculateAnomalyScore fs text =
     spec_anomalyScore (length fs) (length (filter (\<lambda>f. ftype f \<in> set highRiskTypes) fs))
       (card (ftype ` set fs)) (length text)"
proof -
  have "length (remdups (map ftype fs)) = card (ftype ` set fs)"
    by (simp add: length_remdups_card_conv)
  then show ?thesis
    by (simp add: calculateAnomalyScore_def spec_anomalyScore_def Let_def min_def)
qed

lemma pii_types: "f \<in> set (pii_findings_of text) \<Longrightarrow> ftype f \<in> fst ` set PII_PATTERNS"
  by (force simp: pii_findings_of_def pii_finding_def)

lemma family_types: "f \<in> set (family_findings ty ps text) \<Longrightarrow> ftype f = ty"
  by (simp add: family_findings_def whole_text_def split: if_splits)

lemma pii_names:
  "fst ` set PII_PATTERNS \<inter> set injection_types = {}"
  "\<forall>t \<in> fst ` set PII_PATTERNS.
     (str_includes t (js ''API_KEY'') \<or> str_includes t (js ''SECRET'')) = (t \<in> set key_types)"
  by code_simp+

lemma other_names:
  "\<forall>t \<in> set (js ''BULK_DATA'' # injection_types).
     \<not> str_includes t (js ''API_KEY'') \<and> \<not> str_includes t (js ''SECRET'') \<and> t \<notin> set key_types"
  "js ''BULK_DATA'' \<notin> set injection_types"
  by code_simp+


lemma injection_present:
  "(length (family_findings (js ''SQL_INJECTION'') SQL_INJECTION_PATTERNS text) > 0
    \<or> length (family_findings (js ''XSS_ATTEMPT'') XSS_PATTERNS text) > 0
    \<or> length (family_findings (js ''JAILBREAK_PATTERN'') JAILBREAK_PATTERNS text) > 0)
   = (\<exists>f \<in> set (findings (analysis_of text)). ftype f \<in> set injection_types)"
  (is "?lhs = ?rhs")
proof
  assume ?lhs
  then show ?rhs
    by (auto simp: analysis_of_def analysis_from_def Let_def family_findings_def whole_text_def
        injection_types_def split: if_splits)
next
  assume ?rhs
  then obtain f where f: "f \<in> set (findings (analysis_of text))" and t: "ftype f \<in> set injection_types"
    by blast
  from f have "f \<in> set (pii_findings_of text)
      \<or> f \<in> set (family_findings (js ''SQL_INJECTION'') SQL_INJECTION_PATTERNS text)
      \<or> f \<in> set (family_findings (js ''XSS_ATTEMPT'') XSS_PATTERNS text)
      \<or> f \<in> set (family_findings (js ''JAILBREAK_PATTERN'') JAILBREAK_PATTERNS text)
      \<or> ftype f = js ''BULK_DATA''"
    by (auto simp: analysis_of_def analysis_from_def Let_def split: if_splits)
  moreover have "f \<notin> set (pii_findings_of text)"
    using pii_types [of f "text"] pii_names(1) t by blast
  moreover have "ftype f \<noteq> js ''BULK_DATA''"
    using other_names(2) t by auto
  ultimately show ?lhs by auto
qed

lemma key_present:
  "list_ex (\<lambda>f. str_includes (ftype f) (js ''API_KEY'') \<or> str_includes (ftype f) (js ''SECRET''))
     (findings (analysis_of text))
   = (\<exists>f \<in> set (findings (analysis_of text)). ftype f \<in> set key_types)"
proof -
  have "(str_includes (ftype f) (js ''API_KEY'') \<or> str_includes (ftype f) (js ''SECRET''))
      = (ftype f \<in> set key_types)" if f: "f \<in> set (findings (analysis_of text))" for f
  proof -
    from f have "f \<in> set (pii_findings_of text)
      \<or> f \<in> set (family_findings (js ''SQL_INJECTION'') SQL_INJECTION_PATTERNS text)
      \<or> f \<in> set (family_findings (js ''XSS_ATTEMPT'') XSS_PATTERNS text)
      \<or> f \<in> set (family_findings (js ''JAILBREAK_PATTERN'') JAILBREAK_PATTERNS text)
      \<or> ftype f = js ''BULK_DATA''"
      by (auto simp: analysis_of_def analysis_from_def Let_def split: if_splits)
    then have "ftype f \<in> fst ` set PII_PATTERNS \<or> ftype f \<in> set (js ''BULK_DATA'' # injection_types)"
      using pii_types [of f "text"] family_types [of f _ _ "text"]
      by (auto simp: injection_types_def)
    then show ?thesis
      using pii_names(2) other_names(1) by blast
  qed
  then show ?thesis by (auto simp: list_ex_iff)
qed

text \<open>The Detector reports at most one BULK_DATA finding.\<close>

lemma bulk_name: "js ''BULK_DATA'' \<notin> fst ` set PII_PATTERNS"
  by code_simp

lemma at_most_one_bulk_finding:
  "length (filter (\<lambda>f. ftype f = js ''BULK_DATA'') (findings (analysis_of text))) \<le> 1"
proof -
  have 1: "filter (\<lambda>f. ftype f = js ''BULK_DATA'') (pii_findings_of text) = []"
    unfolding filter_empty_conv using pii_types [of _ "text"] bulk_name by metis
  have 2: "filter (\<lambda>f. ftype f = js ''BULK_DATA'') (family_findings ty ps text) = []"
    if "ty \<noteq> js ''BULK_DATA''" for ty ps
    unfolding filter_empty_conv using that family_types [of _ ty ps "text"] by metis
  have 3: "js ''SQL_INJECTION'' \<noteq> js ''BULK_DATA''" "js ''XSS_ATTEMPT'' \<noteq> js ''BULK_DATA''"
    "js ''JAILBREAK_PATTERN'' \<noteq> js ''BULK_DATA''"
    by (simp_all add: js_def)
  show ?thesis
    by (simp add: analysis_of_def analysis_from_def Let_def 1 2 [OF 3(1)] 2 [OF 3(2)] 2 [OF 3(3)])
qed

section \<open>The decision for the PII types of the engine\<close>

lemma engine_pii_decision:
  assumes "\<exists>f \<in> set (findings a). ftype f \<in> set engine_pii_types"
    and "\<forall>f \<in> set (findings a). ftype f \<noteq> js ''BULK_DATA'' \<and> ftype f \<noteq> js ''EXFIL_ATTEMPT''
           \<and> ftype f \<noteq> js ''JAILBREAK_PATTERN''"
    and "riskLevel a \<noteq> HIGH"
  shows "decision (makeDecision a c) =
           (if userRole c = None \<or> userRole c = Some (js ''employee'') then WARN_AND_SANITIZE
            else WARN_AND_ALLOW)
         \<and> reasonCodes (makeDecision a c) = [js ''PII_DETECTED'']"
proof -
  have pii: "list_ex (\<lambda>t. t \<in> set engine_pii_types) (map ftype (findings a))"
    using assms(1) by (auto simp: list_ex_iff)
  have no: "js ''BULK_DATA'' \<notin> set (map ftype (findings a))"
    "js ''EXFIL_ATTEMPT'' \<notin> set (map ftype (findings a))"
    "js ''JAILBREAK_PATTERN'' \<notin> set (map ftype (findings a))"
    using assms(2) by auto
  show ?thesis
    unfolding makeDecision_def Let_def
    using pii no assms(3) by (cases "userRole c") auto
qed

text \<open>
  The engine reads the row count of the first BULK_DATA finding
  (\<open>findings.find(f => f.type === 'BULK_DATA')\<close>).
\<close>

lemma first_bulk_small_decision:
  assumes "find (\<lambda>f. ftype f = js ''BULK_DATA'') (findings a) = Some b"
    and "details b = Some n" and "n \<le> 10"
    and "\<forall>f \<in> set (findings a). ftype f \<notin> set engine_pii_types"
    and "\<forall>f \<in> set (findings a). ftype f \<noteq> js ''EXFIL_ATTEMPT'' \<and> ftype f \<noteq> js ''JAILBREAK_PATTERN''"
    and "riskLevel a \<noteq> HIGH"
  shows "decision (makeDecision a c) = ALLOW \<and> reasonCodes (makeDecision a c) = []
         \<and> userMessage (makeDecision a c) = []"
proof -
  from assms(1) have "b \<in> set (findings a)" "ftype b = js ''BULK_DATA''"
    by (auto simp: find_Some_iff)
  then have bulk: "js ''BULK_DATA'' \<in> set (map ftype (findings a))" by force
  have pii: "\<not> list_ex (\<lambda>t. t \<in> set engine_pii_types) (map ftype (findings a))"
    using assms(4) by (auto simp: list_ex_iff)
  have ex: "js ''EXFIL_ATTEMPT'' \<notin> set (map ftype (findings a))"
    "js ''JAILBREAK_PATTERN'' \<notin> set (map ftype (findings a))"
    using assms(5) by auto
  show ?thesis
    unfolding makeDecision_def Let_def
    using pii bulk ex assms(6) assms(1) assms(2) assms(3) by simp
qed

lemma find_the_only:
  "length (filter P xs) \<le> 1 \<Longrightarrow> f \<in> set xs \<Longrightarrow> P f \<Longrightarrow> find P xs = Some f"
proof (induction xs)
  case Nil
  then show ?case by simp
next
  case (Cons x xs)
  show ?case
  proof (cases "P x")
    case True
    with Cons.prems(1) have "filter P xs = []" by simp
    then have "\<forall>y \<in> set xs. \<not> P y" by (simp add: filter_empty_conv)
    with Cons.prems(2) Cons.prems(3) have "f = x" by auto
    with True show ?thesis by simp
  next
    case False
    with Cons.prems have "length (filter P xs) \<le> 1" "f \<in> set xs" by auto
    from Cons.IH [OF this Cons.prems(3)] False show ?thesis by simp
  qed
qed

text \<open>
  The first BULK_DATA finding decides, also when a later one is small: an analysis put
  together by hand, as the Detector returns none with two BULK_DATA findings.
\<close>

lemma makeDecision_reads_first_bulk_finding:
  "decision (makeDecision
     \<lparr> riskLevel = MEDIUM,
       findings =
         [\<lparr> ftype = js ''BULK_DATA'', offsetStart = 0, offsetEnd = 14, fvalue = None,
            details = Some 50, category = None \<rparr>,
          \<lparr> ftype = js ''BULK_DATA'', offsetStart = 0, offsetEnd = 14, fvalue = None,
            details = Some 5, category = None \<rparr>],
       anomalyScore = 10 \<rparr>
     \<lparr> userRole = Some (js ''employee'') \<rparr>) = BLOCK"
  by code_simp

text \<open>An analysis of the Detector with a finding and a level other than HIGH is MEDIUM.\<close>

lemma analysis_of_medium:
  "findings (analysis_of text) \<noteq> [] \<Longrightarrow> riskLevel (analysis_of text) \<noteq> HIGH \<Longrightarrow>
   riskLevel (analysis_of text) = MEDIUM"
  by (simp add: analysis_of_def analysis_from_def Let_def split: if_splits)

section \<open>Masking\<close>

lemma mask_no_values:
  "\<forall>f \<in> set fs. fvalue f = None \<Longrightarrow> foldl mask_pattern masked fs = masked"
  by (induction fs arbitrary: masked) (simp_all add: mask_pattern_def)

section \<open>The analyses of some texts\<close>

lemma analysis_of_dashes:
  "analysis_of (js ''--'') =
     \<lparr> riskLevel = HIGH,
       findings = [\<lparr> ftype = js ''SQL_INJECTION'', offsetStart = 0, offsetEnd = 2, fvalue = None,
                     details = None, category = None \<rparr>],
       anomalyScore = 30 \<rparr>"
  by code_simp

lemma analysis_of_email_ssn:
  "analysis_of (js ''My email is jane@firm.com and SSN 123-45-6789'') =
     \<lparr> riskLevel = MEDIUM,
       findings =
         [\<lparr> ftype = js ''EMAIL'', offsetStart = 12, offsetEnd = 25, fvalue = Some (js ''jane@firm.com''),
            details = None, category = None \<rparr>,
          \<lparr> ftype = js ''SSN'', offsetStart = 34, offsetEnd = 45, fvalue = Some (js ''123-45-6789''),
            details = None, category = None \<rparr>],
       anomalyScore = 35 \<rparr>"
  by code_simp

lemma anonymize_email_ssn:
  "anonymizationResult.sanitizedText (fst (anonymizeText (js ''My email is jane@firm.com and SSN 123-45-6789'')
     [\<lparr> ftype = js ''EMAIL'', offsetStart = 12, offsetEnd = 25, fvalue = Some (js ''jane@firm.com''),
        details = None, category = None \<rparr>,
      \<lparr> ftype = js ''SSN'', offsetStart = 34, offsetEnd = 45, fvalue = Some (js ''123-45-6789''),
        details = None, category = None \<rparr>]))
   = js ''My email is [EMAIL] and SSN [SSN] ''"
  by code_simp

lemma decide_email_ssn:
  "decision (makeDecision
     \<lparr> riskLevel = MEDIUM,
       findings =
         [\<lparr> ftype = js ''EMAIL'', offsetStart = 12, offsetEnd = 25, fvalue = Some (js ''jane@firm.com''),
            details = None, category = None \<rparr>,
          \<lparr> ftype = js ''SSN'', offsetStart = 34, offsetEnd = 45, fvalue = Some (js ''123-45-6789''),
            details = None, category = None \<rparr>],
       anomalyScore = 35 \<rparr>
     \<lparr> userRole = Some (js ''employee'') \<rparr>) = WARN_AND_SANITIZE"
  by code_simp

lemma analysis_of_passport:
  "analysis_of (js ''Passport AB1234567'') =
     \<lparr> riskLevel = MEDIUM,
       findings =
         [\<lparr> ftype = js ''PASSPORT'', offsetStart = 9, offsetEnd = 18, fvalue = Some (js ''AB1234567''),
            details = None, category = None \<rparr>,
          \<lparr> ftype = js ''DRIVERS_LICENSE'', offsetStart = 9, offsetEnd = 18, fvalue = Some (js ''AB1234567''),
            details = None, category = None \<rparr>],
       anomalyScore = 60 \<rparr>"
  by code_simp

lemma analysis_of_list_of_things:
  "analysis_of (js ''list of things'') =
     \<lparr> riskLevel = MEDIUM,
       findings = [\<lparr> ftype = js ''BULK_DATA'', offsetStart = 0, offsetEnd = 14, fvalue = None,
                     details = Some 1, category = None \<rparr>],
       anomalyScore = 5 \<rparr>"
  by code_simp

section \<open>The claims\<close>

subsection \<open>Entity Mapper\<close>

text \<open>
  C1 (the code departs from it). The claim: whenever two findings carry the same \<open>value\<close>,
  \<open>buildEntityMap\<close> gives them one placeholder, and no value is recorded under two
  placeholders. The test that is meant to see whether a value is already there,
  \<open>!entityMap[value]\<close>, reads the map at the value, while the map is keyed by placeholder:
  it finds nothing, and every finding gets a placeholder of its own. Two EMAIL findings with
  the value \<open>a@b.co\<close>, as the Detector reports them for \<open>a@b.co a@b.co\<close>, are recorded
  as \<open>DATA_1\<close> and \<open>DATA_2\<close>.
\<close>

theorem buildEntityMap_same_value_two_placeholders:
  "map (\<lambda>e. (fst e, originalValue (snd e)))
     (buildEntityMap
        [\<lparr> ftype = js ''EMAIL'', offsetStart = 0, offsetEnd = 6, fvalue = Some (js ''a@b.co''),
           details = None, category = None \<rparr>,
         \<lparr> ftype = js ''EMAIL'', offsetStart = 7, offsetEnd = 13, fvalue = Some (js ''a@b.co''),
           details = None, category = None \<rparr>])
   = [(js ''DATA_1'', Some (js ''a@b.co'')), (js ''DATA_2'', Some (js ''a@b.co''))]"
  by code_simp

subsection \<open>Detector\<close>

text \<open>
  C7. \<open>analyzeText\<close> is deterministic in spite of the shared patterns: from any state of
  their \<open>lastIndex\<close> fields, every call of any sequence of calls returns, and two calls on
  the same text, in one sequence or in two, at any place among calls on other texts,
  return the same analysis: the same findings, risk level and anomaly score.
\<close>

theorem analyzeText_deterministic:
  "\<exists>rs1 h1' rs2 h2'.
     analyze_each texts1 h1 = Some (rs1, h1') \<and> length rs1 = length texts1 \<and>
     analyze_each texts2 h2 = Some (rs2, h2') \<and> length rs2 = length texts2 \<and>
     (\<forall>i < length texts1. \<forall>j < length texts2. texts1 ! i = texts2 ! j \<longrightarrow> rs1 ! i = rs2 ! j)"
proof -
  from analyze_each_eq obtain h1' where 1: "analyze_each texts1 h1 = Some (map analysis_of texts1, h1')"
    by blast
  from analyze_each_eq obtain h2' where 2: "analyze_each texts2 h2 = Some (map analysis_of texts2, h2')"
    by blast
  from 1 2 show ?thesis by simp
qed

theorem analyzeText_deterministic_witness:
  "\<exists>rs1 h1' rs2 h2'.
     analyze_each [js ''a@b.co'', js ''DROP TABLE t'', js ''a@b.co''] (\<lambda>r. 7) = Some (rs1, h1') \<and>
     analyze_each [js ''DROP TABLE t'', js ''a@b.co''] initial_lastIndexes = Some (rs2, h2') \<and>
     rs1 ! 0 = rs1 ! 2 \<and> rs1 ! 0 = rs2 ! 1 \<and> rs1 ! 1 = rs2 ! 0"
proof -
  let ?t1 = "[js ''a@b.co'', js ''DROP TABLE t'', js ''a@b.co'']"
  let ?t2 = "[js ''DROP TABLE t'', js ''a@b.co'']"
  from analyzeText_deterministic [of ?t1 "\<lambda>r. 7" ?t2 initial_lastIndexes]
  obtain rs1 h1' rs2 h2' where 1: "analyze_each ?t1 (\<lambda>r. 7) = Some (rs1, h1')"
    and 2: "analyze_each ?t2 initial_lastIndexes = Some (rs2, h2')"
    and 3: "\<forall>i < length ?t1. \<forall>j < length ?t2. ?t1 ! i = ?t2 ! j \<longrightarrow> rs1 ! i = rs2 ! j"
    by blast
  from 3 have a: "rs1 ! 0 = rs2 ! 1" by simp
  from 3 have b: "rs1 ! 2 = rs2 ! 1" by simp
  from 3 have c: "rs1 ! 1 = rs2 ! 0" by simp
  from 1 2 a b c show ?thesis by simp
qed

text \<open>
  C5. For every text, from any state of the module, \<open>analyzeText\<close> returns an analysis
  whose anomaly score is
  \<open>min(100, 5 * min(findingCount, 6) + 25 * highRiskFindingCount + (15 if more than 3 distinct
  categories) + (10 if the text is longer than 1000 and findingCount > 5))\<close>, and whose risk
  level is HIGH when a SQL, XSS or jailbreak finding or a key or secret finding is present
  or the score is at least 70, otherwise MEDIUM when there are findings, bulk was detected
  or the score is at least 40, and LOW otherwise.
\<close>

theorem analyzeText_score_and_risk:
  "\<exists>a h'. analyzeText text h = Some (a, h') \<and>
     anomalyScore a =
       spec_anomalyScore (length (findings a))
         (length (filter (\<lambda>f. ftype f \<in> set highRiskTypes) (findings a)))
         (card (ftype ` set (findings a))) (length text) \<and>
     riskLevel a =
       spec_riskLevel (\<exists>f \<in> set (findings a). ftype f \<in> set injection_types)
         (\<exists>f \<in> set (findings a). ftype f \<in> set key_types)
         (findings a \<noteq> []) (isBulk (detectBulkData text)) (anomalyScore a)"
proof -
  from analyzeText_eq obtain h' where a: "analyzeText text h = Some (analysis_of text, h')" by blast
  have fs: "findings (analysis_of text) =
      pii_findings_of text @ family_findings (js ''SQL_INJECTION'') SQL_INJECTION_PATTERNS text
      @ family_findings (js ''XSS_ATTEMPT'') XSS_PATTERNS text
      @ family_findings (js ''JAILBREAK_PATTERN'') JAILBREAK_PATTERNS text
      @ (if isBulk (detectBulkData text) then
           [\<lparr> ftype = js ''BULK_DATA'', offsetStart = 0, offsetEnd = length text,
              fvalue = None, details = Some (rowCount (detectBulkData text)), category = None \<rparr>]
         else [])"
    by (simp add: analysis_of_def analysis_from_def Let_def)
  have score: "anomalyScore (analysis_of text) = calculateAnomalyScore (findings (analysis_of text)) text"
    by (simp add: analysis_of_def analysis_from_def Let_def)
  have risk: "riskLevel (analysis_of text) =
      (if (length (family_findings (js ''SQL_INJECTION'') SQL_INJECTION_PATTERNS text) > 0
           \<or> length (family_findings (js ''XSS_ATTEMPT'') XSS_PATTERNS text) > 0
           \<or> length (family_findings (js ''JAILBREAK_PATTERN'') JAILBREAK_PATTERNS text) > 0)
          \<or> list_ex (\<lambda>f. str_includes (ftype f) (js ''API_KEY'') \<or> str_includes (ftype f) (js ''SECRET''))
               (findings (analysis_of text))
          \<or> anomalyScore (analysis_of text) \<ge> 70 then HIGH
       else if length (findings (analysis_of text)) > 0 \<or> isBulk (detectBulkData text)
               \<or> anomalyScore (analysis_of text) \<ge> 40 then MEDIUM
       else LOW)"
    by (simp add: analysis_of_def analysis_from_def Let_def)
  have "riskLevel (analysis_of text) =
       spec_riskLevel (\<exists>f \<in> set (findings (analysis_of text)). ftype f \<in> set injection_types)
         (\<exists>f \<in> set (findings (analysis_of text)). ftype f \<in> set key_types)
         (findings (analysis_of text) \<noteq> []) (isBulk (detectBulkData text)) (anomalyScore (analysis_of text))"
    unfolding risk injection_present key_present spec_riskLevel_def by simp
  with a score show ?thesis
    by (simp add: calculateAnomalyScore_spec)
qed

theorem analyzeText_score_and_risk_witness:
  "\<exists>a h'. analyzeText (js ''--'') initial_lastIndexes = Some (a, h') \<and> anomalyScore a = 30 \<and> riskLevel a = HIGH"
proof -
  from analyzeText_score_and_risk [of "js ''--''" initial_lastIndexes]
  obtain a h' where a: "analyzeText (js ''--'') initial_lastIndexes = Some (a, h')"
    and s: "anomalyScore a =
       spec_anomalyScore (length (findings a))
         (length (filter (\<lambda>f. ftype f \<in> set highRiskTypes) (findings a)))
         (card (ftype ` set (findings a))) (length (js ''--''))"
    and r: "riskLevel a =
       spec_riskLevel (\<exists>f \<in> set (findings a). ftype f \<in> set injection_types)
         (\<exists>f \<in> set (findings a). ftype f \<in> set key_types)
         (findings a \<noteq> []) (isBulk (detectBulkData (js ''--''))) (anomalyScore a)"
    by blast
  from a analyzeText_eq [of "js ''--''" initial_lastIndexes] have "a = analysis_of (js ''--'')" by auto
  then have f: "findings a = [\<lparr> ftype = js ''SQL_INJECTION'', offsetStart = 0, offsetEnd = 2, fvalue = None,
                     details = None, category = None \<rparr>]"
    by (simp add: analysis_of_dashes)
  have "js ''SQL_INJECTION'' \<in> set highRiskTypes" "js ''SQL_INJECTION'' \<in> set injection_types"
    by (simp_all add: highRiskTypes_def injection_types_def)
  with s r f have "anomalyScore a = 30" "riskLevel a = HIGH"
    by (simp_all add: spec_anomalyScore_def spec_riskLevel_def)
  with a show ?thesis by blast
qed

text \<open>
  C6. For every text, each of \<open>detectSQLInjection\<close>, \<open>detectXSS\<close> and \<open>detectJailbreak\<close>
  returns at most one finding, and one exactly when a pattern of its list matches the text.
  The finding has the type of the family and spans the whole text: \<open>offsetStart\<close> is 0 and
  \<open>offsetEnd\<close> is the length of the text (it has no value, details or category). The first
  matching pattern wins: the patterns of the list up to it, and only they, are run (each
  is left with the \<open>lastIndex\<close> of its own \<open>test\<close> from 0), the patterns after it are not
  (their \<open>lastIndex\<close> is as it was before the call).
\<close>

theorem injection_scanners_first_match_wins:
  "length (fst (detectSQLInjection text h)) \<le> 1 \<and>
   (fst (detectSQLInjection text h) \<noteq> []) = list_ex (\<lambda>p. matches p text) SQL_INJECTION_PATTERNS \<and>
   (\<forall>f \<in> set (fst (detectSQLInjection text h)).
      ftype f = js ''SQL_INJECTION'' \<and> offsetStart f = 0 \<and> offsetEnd f = length text \<and>
      fvalue f = None \<and> details f = None \<and> category f = None) \<and>
   (\<forall>j \<le> length (takeWhile (\<lambda>p. \<not> matches p text) SQL_INJECTION_PATTERNS).
      j < length SQL_INJECTION_PATTERNS \<longrightarrow>
      snd (detectSQLInjection text h) (SQL_TABLE, j)
        = snd (regexp_exec (SQL_INJECTION_PATTERNS ! j) text 0)) \<and>
   (\<forall>j > length (takeWhile (\<lambda>p. \<not> matches p text) SQL_INJECTION_PATTERNS).
      snd (detectSQLInjection text h) (SQL_TABLE, j) = h (SQL_TABLE, j)) \<and>
   length (fst (detectXSS text h)) \<le> 1 \<and>
   (fst (detectXSS text h) \<noteq> []) = list_ex (\<lambda>p. matches p text) XSS_PATTERNS \<and>
   (\<forall>f \<in> set (fst (detectXSS text h)).
      ftype f = js ''XSS_ATTEMPT'' \<and> offsetStart f = 0 \<and> offsetEnd f = length text \<and>
      fvalue f = None \<and> details f = None \<and> category f = None) \<and>
   (\<forall>j \<le> length (takeWhile (\<lambda>p. \<not> matches p text) XSS_PATTERNS).
      j < length XSS_PATTERNS \<longrightarrow>
      snd (detectXSS text h) (XSS_TABLE, j) = snd (regexp_exec (XSS_PATTERNS ! j) text 0)) \<and>
   (\<forall>j > length (takeWhile (\<lambda>p. \<not> matches p text) XSS_PATTERNS).
      snd (detectXSS text h) (XSS_TABLE, j) = h (XSS_TABLE, j)) \<and>
   length (fst (detectJailbreak text h)) \<le> 1 \<and>
   (fst (detectJailbreak text h) \<noteq> []) = list_ex (\<lambda>p. matches p text) JAILBREAK_PATTERNS \<and>
   (\<forall>f \<in> set (fst (detectJailbreak text h)).
      ftype f = js ''JAILBREAK_PATTERN'' \<and> offsetStart f = 0 \<and> offsetEnd f = length text \<and>
      fvalue f = None \<and> details f = None \<and> category f = None) \<and>
   (\<forall>j \<le> length (takeWhile (\<lambda>p. \<not> matches p text) JAILBREAK_PATTERNS).
      j < length JAILBREAK_PATTERNS \<longrightarrow>
      snd (detectJailbreak text h) (JAILBREAK_TABLE, j)
        = snd (regexp_exec (JAILBREAK_PATTERNS ! j) text 0)) \<and>
   (\<forall>j > length (takeWhile (\<lambda>p. \<not> matches p text) JAILBREAK_PATTERNS).
      snd (detectJailbreak text h) (JAILBREAK_TABLE, j) = h (JAILBREAK_TABLE, j))"
proof -
  note sql = scan_enumerated_first_match
    [of SQL_TABLE "js ''SQL_INJECTION''" SQL_INJECTION_PATTERNS "text" h, folded detectSQLInjection_def]
  note xss = scan_enumerated_first_match
    [of XSS_TABLE "js ''XSS_ATTEMPT''" XSS_PATTERNS "text" h, folded detectXSS_def]
  note jailbreak = scan_enumerated_first_match
    [of JAILBREAK_TABLE "js ''JAILBREAK_PATTERN''" JAILBREAK_PATTERNS "text" h, folded detectJailbreak_def]
  from sql xss jailbreak show ?thesis
    apply (elim conjE)
    apply (intro conjI)
    apply assumption+
    done
qed

text \<open>
  On \<open>x; DROP TABLE users\<close> (19 code units), with every \<open>lastIndex\<close> at 99 before the call:
  the first pattern (\<open>SELECT ... FROM\<close>) is run and does not match, which leaves its
  \<open>lastIndex\<close> at 0; the second (\<open>DROP ... TABLE\<close>) matches up to index 13 and makes the
  finding; the third (\<open>INSERT ... INTO\<close>), which does not match, and the sixth
  (\<open>;\s*(DROP|DELETE|UPDATE|INSERT)\<close>), which matches up to index 7, are not run: their
  \<open>lastIndex\<close> is still 99.
\<close>

theorem injection_scanners_first_match_wins_witness:
  "fst (detectSQLInjection (js ''x; DROP TABLE users'') (\<lambda>r. 99))
     = [\<lparr> ftype = js ''SQL_INJECTION'', offsetStart = 0, offsetEnd = 19, fvalue = None,
           details = None, category = None \<rparr>] \<and>
   snd (detectSQLInjection (js ''x; DROP TABLE users'') (\<lambda>r. 99)) (SQL_TABLE, 0) = 0 \<and>
   snd (detectSQLInjection (js ''x; DROP TABLE users'') (\<lambda>r. 99)) (SQL_TABLE, 1) = 13 \<and>
   snd (detectSQLInjection (js ''x; DROP TABLE users'') (\<lambda>r. 99)) (SQL_TABLE, 2) = 99 \<and>
   snd (detectSQLInjection (js ''x; DROP TABLE users'') (\<lambda>r. 99)) (SQL_TABLE, 5) = 99 \<and>
   \<not> matches (SQL_INJECTION_PATTERNS ! 2) (js ''x; DROP TABLE users'') \<and>
   snd (regexp_exec (SQL_INJECTION_PATTERNS ! 5) (js ''x; DROP TABLE users'') 0) = 7"
proof -
  let ?t = "js ''x; DROP TABLE users''"
  let ?D = "detectSQLInjection ?t (\<lambda>r. 99)"
  have m: "list_ex (\<lambda>p. matches p ?t) SQL_INJECTION_PATTERNS"
    by code_simp
  have k: "length (takeWhile (\<lambda>p. \<not> matches p ?t) SQL_INJECTION_PATTERNS) = 1"
    by code_simp
  have n: "length SQL_INJECTION_PATTERNS = 10"
    by code_simp
  have l: "length ?t = 19"
    by (simp add: js_def)
  have r0: "snd (regexp_exec (SQL_INJECTION_PATTERNS ! 0) ?t 0) = 0"
    by code_simp
  have r1: "snd (regexp_exec (SQL_INJECTION_PATTERNS ! 1) ?t 0) = 13"
    by code_simp
  have r2: "\<not> matches (SQL_INJECTION_PATTERNS ! 2) ?t"
    by code_simp
  have r5: "snd (regexp_exec (SQL_INJECTION_PATTERNS ! 5) ?t 0) = 7"
    by code_simp
  note main = injection_scanners_first_match_wins [of ?t "\<lambda>r. 99"]
  from main have one: "length (fst ?D) \<le> 1" by (elim conjE)
  from main have "(fst ?D \<noteq> []) = list_ex (\<lambda>p. matches p ?t) SQL_INJECTION_PATTERNS"
    by (elim conjE)
  with m have some: "fst ?D \<noteq> []" by simp
  from main have span: "\<forall>f \<in> set (fst ?D).
      ftype f = js ''SQL_INJECTION'' \<and> offsetStart f = 0 \<and> offsetEnd f = length ?t \<and>
      fvalue f = None \<and> details f = None \<and> category f = None"
    by (elim conjE)
  from main have run: "\<forall>j \<le> length (takeWhile (\<lambda>p. \<not> matches p ?t) SQL_INJECTION_PATTERNS).
      j < length SQL_INJECTION_PATTERNS \<longrightarrow>
      snd ?D (SQL_TABLE, j) = snd (regexp_exec (SQL_INJECTION_PATTERNS ! j) ?t 0)"
    by (elim conjE)
  from main have rest: "\<forall>j > length (takeWhile (\<lambda>p. \<not> matches p ?t) SQL_INJECTION_PATTERNS).
      snd ?D (SQL_TABLE, j) = 99"
    by (elim conjE)
  from one some obtain f where f: "fst ?D = [f]"
    by (cases "fst ?D") auto
  with span l have "ftype f = js ''SQL_INJECTION''" "offsetStart f = 0" "offsetEnd f = 19"
    "fvalue f = None" "details f = None" "category f = None"
    by simp_all
  then have "f = \<lparr> ftype = js ''SQL_INJECTION'', offsetStart = 0, offsetEnd = 19, fvalue = None,
           details = None, category = None \<rparr>"
    by (cases f) simp
  with f have a: "fst ?D = [\<lparr> ftype = js ''SQL_INJECTION'', offsetStart = 0, offsetEnd = 19, fvalue = None,
           details = None, category = None \<rparr>]"
    by simp
  from run k n have b0: "snd ?D (SQL_TABLE, 0) = snd (regexp_exec (SQL_INJECTION_PATTERNS ! 0) ?t 0)"
    by simp
  from run k n have b1: "snd ?D (SQL_TABLE, 1) = snd (regexp_exec (SQL_INJECTION_PATTERNS ! 1) ?t 0)"
    by simp
  from rest k have b2: "snd ?D (SQL_TABLE, 2) = 99" by simp
  from rest k have b5: "snd ?D (SQL_TABLE, 5) = 99" by simp
  from a b0 b1 b2 b5 r0 r1 r2 r5 show ?thesis by simp
qed

subsection \<open>Policy Engine\<close>

text \<open>
  C10. For every analysis that \<open>analyzeText\<close> returns, whose findings include a BULK_DATA
  finding with a row count of at most 10, with no finding of the engine's PII types, no
  exfiltration or jailbreak finding, and a risk level other than HIGH: \<open>makeDecision\<close>
  returns ALLOW with no reason code and an empty user message, though the risk level of
  the analysis is MEDIUM. (The engine reads the row count of the first BULK_DATA finding;
  an analysis of the Detector has one at most.)
\<close>

theorem small_bulk_allowed:
  assumes "analyzeText text h = Some (a, h')"
    and "\<exists>f \<in> set (findings a). ftype f = js ''BULK_DATA'' \<and> (\<exists>n \<le> 10. details f = Some n)"
    and "\<forall>f \<in> set (findings a). ftype f \<notin> set engine_pii_types"
    and "\<forall>f \<in> set (findings a). ftype f \<noteq> js ''EXFIL_ATTEMPT'' \<and> ftype f \<noteq> js ''JAILBREAK_PATTERN''"
    and "riskLevel a \<noteq> HIGH"
  shows "decision (makeDecision a c) = ALLOW \<and> reasonCodes (makeDecision a c) = []
         \<and> userMessage (makeDecision a c) = [] \<and> riskLevel a = MEDIUM"
proof -
  from analyzeText_eq [of "text" h] assms(1) have a: "a = analysis_of text" by auto
  from assms(2) obtain b n where b: "b \<in> set (findings a)" "ftype b = js ''BULK_DATA''"
    and n: "details b = Some n" "n \<le> 10"
    by blast
  have "length (filter (\<lambda>f. ftype f = js ''BULK_DATA'') (findings a)) \<le> 1"
    unfolding a by (rule at_most_one_bulk_finding)
  from find_the_only [of "\<lambda>f. ftype f = js ''BULK_DATA''", OF this b]
  have first: "find (\<lambda>f. ftype f = js ''BULK_DATA'') (findings a) = Some b" .
  from b(1) have "findings a \<noteq> []" by auto
  from this assms(5) have medium: "riskLevel a = MEDIUM"
    unfolding a by (rule analysis_of_medium)
  from first_bulk_small_decision [OF first n assms(3) assms(4) assms(5)] medium
  show ?thesis by simp
qed

text \<open>
  On the text \<open>list of things\<close>: the Detector reports one BULK_DATA finding with row count 1
  and the level MEDIUM, and the engine allows it without a word.
\<close>

theorem small_bulk_allowed_witness:
  "(let a = \<lparr> riskLevel = MEDIUM,
              findings = [\<lparr> ftype = js ''BULK_DATA'', offsetStart = 0, offsetEnd = 14, fvalue = None,
                            details = Some 1, category = None \<rparr>],
              anomalyScore = 5 \<rparr>;
        c = \<lparr> userRole = Some (js ''employee'') \<rparr>
    in map_option fst (analyzeText (js ''list of things'') initial_lastIndexes) = Some a \<and>
       (\<exists>f \<in> set (findings a). ftype f = js ''BULK_DATA'' \<and> (\<exists>n \<le> 10. details f = Some n)) \<and>
       (\<forall>f \<in> set (findings a). ftype f \<notin> set engine_pii_types) \<and>
       (\<forall>f \<in> set (findings a). ftype f \<noteq> js ''EXFIL_ATTEMPT'' \<and> ftype f \<noteq> js ''JAILBREAK_PATTERN'') \<and>
       riskLevel a \<noteq> HIGH \<and>
       decision (makeDecision a c) = ALLOW \<and> reasonCodes (makeDecision a c) = [] \<and>
       userMessage (makeDecision a c) = [] \<and> riskLevel a = MEDIUM)"
proof -
  let ?a = "\<lparr> riskLevel = MEDIUM,
              findings = [\<lparr> ftype = js ''BULK_DATA'', offsetStart = 0, offsetEnd = 14, fvalue = None,
                            details = Some 1, category = None \<rparr>],
              anomalyScore = 5 \<rparr>"
  from analyzeText_eq [of "js ''list of things''" initial_lastIndexes]
  obtain h' where 0: "analyzeText (js ''list of things'') initial_lastIndexes = Some (?a, h')"
    by (auto simp: analysis_of_list_of_things)
  have 1: "\<exists>f \<in> set (findings ?a). ftype f = js ''BULK_DATA'' \<and> (\<exists>n \<le> 10. details f = Some n)"
    by simp
  have 2: "\<forall>f \<in> set (findings ?a). ftype f \<notin> set engine_pii_types"
    by (simp add: engine_pii_types_def js_def)
  have 3: "\<forall>f \<in> set (findings ?a). ftype f \<noteq> js ''EXFIL_ATTEMPT'' \<and> ftype f \<noteq> js ''JAILBREAK_PATTERN''"
    by (simp add: js_def)
  have 4: "riskLevel ?a \<noteq> HIGH" by simp
  from 0 have 5: "map_option fst (analyzeText (js ''list of things'') initial_lastIndexes) = Some ?a"
    by simp
  from small_bulk_allowed [OF 0 1 2 3 4, of "\<lparr> userRole = Some (js ''employee'') \<rparr>"] 1 2 3 4 5
  show ?thesis unfolding Let_def by blast
qed

text \<open>
  C4 (the code departs from it). The claim: a PII finding of any PII category of the
  Detector, passport and driver's license among them, with no bulk, no HIGH risk and no
  exfiltration or jailbreak finding, is decided WARN_AND_SANITIZE for an employee, with
  reason PII_DETECTED. The engine's list of PII types holds the seven basic categories
  only. The text \<open>Passport AB1234567\<close> is analysed as PASSPORT and DRIVERS_LICENSE with
  risk MEDIUM, and for an employee the decision is WARN_AND_ALLOW with reason MEDIUM_RISK.
\<close>

theorem passport_not_treated_as_pii:
  "(let a = fst (the (analyzeText (js ''Passport AB1234567'') initial_lastIndexes));
        d = makeDecision a \<lparr> userRole = Some (js ''employee'') \<rparr>
    in map ftype (findings a) = [js ''PASSPORT'', js ''DRIVERS_LICENSE''] \<and> riskLevel a = MEDIUM
       \<and> decision d = WARN_AND_ALLOW \<and> reasonCodes d = [js ''MEDIUM_RISK''])"
  unfolding analyzeText_fst analysis_of_passport by code_simp

subsection \<open>Anonymizer\<close>

text \<open>
  C8 (the code departs from it). The claim: after \<open>anonymizeText\<close> the caller's findings
  are still in detection order. \<open>findings.sort(...)\<close> sorts the caller's array itself, so
  the call leaves it ordered by descending \<open>offsetStart\<close>: the findings EMAIL, SSN of
  \<open>My email is jane@firm.com and SSN 123-45-6789\<close> come back as SSN, EMAIL.
\<close>

theorem anonymizeText_reorders_findings:
  "snd (anonymizeText (js ''My email is jane@firm.com and SSN 123-45-6789'')
     [\<lparr> ftype = js ''EMAIL'', offsetStart = 12, offsetEnd = 25, fvalue = Some (js ''jane@firm.com''),
        details = None, category = None \<rparr>,
      \<lparr> ftype = js ''SSN'', offsetStart = 34, offsetEnd = 45, fvalue = Some (js ''123-45-6789''),
        details = None, category = None \<rparr>])
   = [\<lparr> ftype = js ''SSN'', offsetStart = 34, offsetEnd = 45, fvalue = Some (js ''123-45-6789''),
        details = None, category = None \<rparr>,
      \<lparr> ftype = js ''EMAIL'', offsetStart = 12, offsetEnd = 25, fvalue = Some (js ''jane@firm.com''),
        details = None, category = None \<rparr>]"
  by code_simp

subsection \<open>Output Filter\<close>

text \<open>
  C3 (the code departs from it). The claim: \<open>scanOutput\<close> of \<open>Contact john@example.com\<close>
  with the entity map \<open>{EMAIL_1: {originalValue: "john@example.com"}}\<close> returns a result
  with \<open>safe = false\<close>. \<open>detectReversalAttempts\<close> calls \<open>toLowerCase\<close> on the entry, which
  is an object: the call throws a TypeError and \<open>scanOutput\<close> has no result.
\<close>

theorem scanOutput_object_entry_throws:
  "fst (the (scanOutput (js ''Contact john@example.com'')
      [(js ''EMAIL_1'', JObject [(js ''originalValue'', js ''john@example.com'')])] initial_lastIndexes))
   = Inl TypeError"
  using analyzeText_eq [of "js ''Contact john@example.com''" initial_lastIndexes]
  by (auto simp: scanOutput_def)

text \<open>
  C9. When the Detector finds something in the output text and none of its findings
  carries a \<open>value\<close> (the findings of the injection families and BULK_DATA), and the entity
  map is empty, \<open>scanOutput\<close> returns \<open>safe = false\<close> with a \<open>maskedText\<close> that is the input
  text, unchanged.
\<close>

theorem scanOutput_valueless_findings_not_masked:
  assumes "analyzeText text h = Some (a, h1)"
    and "findings a \<noteq> []"
    and "\<forall>f \<in> set (findings a). fvalue f = None"
  shows "\<exists>r. scanOutput text [] h = Some (Inr r, h1) \<and> safe r = False \<and> maskedText r = Some text"
  using assms
  by (simp add: scanOutput_def Let_def maskSensitiveContent_def mask_no_values)

theorem scanOutput_valueless_findings_not_masked_witness:
  "\<exists>a h1 r. analyzeText (js ''--'') initial_lastIndexes = Some (a, h1) \<and> findings a \<noteq> []
     \<and> (\<forall>f \<in> set (findings a). fvalue f = None)
     \<and> scanOutput (js ''--'') [] initial_lastIndexes = Some (Inr r, h1) \<and> safe r = False
     \<and> maskedText r = Some (js ''--'')"
proof -
  from analyzeText_eq obtain h1 where
    a: "analyzeText (js ''--'') initial_lastIndexes = Some (analysis_of (js ''--''), h1)" by blast
  have f: "findings (analysis_of (js ''--'')) \<noteq> []"
    and v: "\<forall>f \<in> set (findings (analysis_of (js ''--''))). fvalue f = None"
    by (simp_all add: analysis_of_dashes)
  from scanOutput_valueless_findings_not_masked [OF a f v] a f v show ?thesis by blast
qed

subsection \<open>The pipeline on an example\<close>

text \<open>
  C2 (amended). For \<open>My email is jane@firm.com and SSN 123-45-6789\<close> the Detector
  returns the findings EMAIL and SSN with risk level MEDIUM, the Policy Engine decides
  WARN_AND_SANITIZE for the role employee, and the Anonymizer produces
  \<open>My email is [EMAIL] and SSN [SSN] \<close> with a space at the end: the replacement of the
  SSN is followed by no white space, so a space is appended to it.
\<close>

theorem email_ssn_example:
  "\<exists>a h'. analyzeText (js ''My email is jane@firm.com and SSN 123-45-6789'') h = Some (a, h')
     \<and> map ftype (findings a) = [js ''EMAIL'', js ''SSN''] \<and> riskLevel a = MEDIUM
     \<and> decision (makeDecision a \<lparr> userRole = Some (js ''employee'') \<rparr>) = WARN_AND_SANITIZE
     \<and> anonymizationResult.sanitizedText
         (fst (anonymizeText (js ''My email is jane@firm.com and SSN 123-45-6789'') (findings a)))
       = js ''My email is [EMAIL] and SSN [SSN] ''"
proof -
  from analyzeText_eq obtain h' where
    "analyzeText (js ''My email is jane@firm.com and SSN 123-45-6789'') h
       = Some (analysis_of (js ''My email is jane@firm.com and SSN 123-45-6789''), h')"
    by blast
  then show ?thesis
    by (simp add: analysis_of_email_ssn anonymize_email_ssn decide_email_ssn)
qed

text \<open>
  C2 as stated does not hold: the sanitized text is not
  \<open>My email is [EMAIL] and SSN [SSN]\<close>, which has no space at the end.
\<close>

theorem email_ssn_example_trailing_space:
  "anonymizationResult.sanitizedText
     (fst (anonymizeText (js ''My email is jane@firm.com and SSN 123-45-6789'')
        (findings (fst (the (analyzeText (js ''My email is jane@firm.com and SSN 123-45-6789'')
                              initial_lastIndexes))))))
   \<noteq> js ''My email is [EMAIL] and SSN [SSN]''"
  by (simp add: analyzeText_fst analysis_of_email_ssn anonymize_email_ssn) (simp add: js_def)

end
